theory Spec2Isabelle
  imports Main "HOL-Library.Multiset" "HOL-Library.Sublist" "HOL-Library.List_Lexorder"
begin

text \<open>
  The script \<open>script.py\<close> merges product catalogs: it concatenates the tables read from a
  folder, maps their columns onto a fixed set of fields by lists of accepted labels, derives
  a field that lists the air filters of a product, merges the rows that share an identifier
  and sorts the result by manufacturer.  This theory embeds its functions \<open>load_data\<close>,
  \<open>extract_filters\<close> and \<open>process_catalog\<close>, with the operations of pandas they call, and
  proves what the specification claims about them.  Reading and writing the spreadsheets
  and the log messages are left out.
\<close>

section \<open>Strings and cell values\<close>

text \<open>
  A Python \<open>str\<close> is a sequence of Unicode code points, so a string is a list of code
  points here (\<open>length\<close> counts what Python's \<open>len\<close> counts).  The script's Cyrillic
  literals are written as their code points, with a Latin transliteration beside them.
\<close>

type_synonym pystr = "nat list"

text \<open>
  A cell of a table is missing (pandas \<open>NaN\<close>), a string or an integer.  Floating-point
  cells and the dtype coercions of pandas are outside this model.
\<close>

datatype cell = NaN | Str pystr | Num int

text \<open>\<open>pd.notna\<close>.\<close>

fun notna :: "cell \<Rightarrow> bool" where
  "notna NaN = False"
| "notna (Str s) = True"
| "notna (Num i) = True"

text \<open>
  \<open>str.isspace\<close> on one code point: the characters \<open>str.strip()\<close> removes.
\<close>

definition isspace :: "nat \<Rightarrow> bool" where
  "isspace c = ((9 \<le> c \<and> c \<le> 13) \<or> (28 \<le> c \<and> c \<le> 32) \<or> c = 133 \<or> c = 160
      \<or> c = 5760 \<or> (8192 \<le> c \<and> c \<le> 8202) \<or> c = 8232 \<or> c = 8233 \<or> c = 8239
      \<or> c = 8287 \<or> c = 12288)"

definition strip :: "pystr \<Rightarrow> pystr" where
  "strip s = rev (dropWhile isspace (rev (dropWhile isspace s)))"

text \<open>
  \<open>str.lower\<close>, on the Basic Latin, Latin-1 and Cyrillic capitals; every other code point
  is left as it is.
\<close>

definition lower_cp :: "nat \<Rightarrow> nat" where
  "lower_cp c =
     (if 65 \<le> c \<and> c \<le> 90 then c + 32
      else if (192 \<le> c \<and> c \<le> 214) \<or> (216 \<le> c \<and> c \<le> 222) then c + 32
      else if 1024 \<le> c \<and> c \<le> 1039 then c + 80
      else if 1040 \<le> c \<and> c \<le> 1071 then c + 32
      else c)"

definition lower :: "pystr \<Rightarrow> pystr" where
  "lower s = map lower_cp s"

text \<open>The substring test \<open>needle in hay\<close>.\<close>

fun contains :: "pystr \<Rightarrow> pystr \<Rightarrow> bool" where
  "contains [] needle = (needle = [])"
| "contains (c # cs) needle = (prefix needle (c # cs) \<or> contains cs needle)"

text \<open>
  \<open>s.replace(old, new)\<close>: every occurrence of \<open>old\<close>, found from the left without overlap,
  becomes \<open>new\<close>; an empty \<open>old\<close> matches before every character and at the end.
\<close>

function replace :: "pystr \<Rightarrow> pystr \<Rightarrow> pystr \<Rightarrow> pystr" where
  "replace s old new =
     (if old = [] then new @ concat (map (\<lambda>c. c # new) s)
      else if s = [] then []
      else if prefix old s then new @ replace (drop (length old) s) old new
      else hd s # replace (tl s) old new)"
  by pat_completeness auto
termination
  by (relation "measure (\<lambda>(s, old, new). length s)") auto

declare replace.simps [simp del]

text \<open>\<open>sep.join(xs)\<close>.\<close>

fun join :: "pystr \<Rightarrow> pystr list \<Rightarrow> pystr" where
  "join sep [] = []"
| "join sep [x] = x"
| "join sep (x # y # ys) = x @ sep @ join sep (y # ys)"

text \<open>\<open>str\<close> of a cell: the decimal digits of an integer, the text \<open>nan\<close> of a missing cell.\<close>

function digits :: "nat \<Rightarrow> pystr" where
  "digits n = (if n < 10 then [48 + n] else digits (n div 10) @ [48 + n mod 10])"
  by pat_completeness auto
termination
  by (relation "measure (\<lambda>n. n)") auto

declare digits.simps [simp del]

fun str :: "cell \<Rightarrow> pystr" where
  "str NaN = [110, 97, 110]"
| "str (Str s) = s"
| "str (Num i) = (if i < 0 then 45 # digits (nat (- i)) else digits (nat i))"

section \<open>The configuration of the script\<close>

definition MAPPING :: "(pystr \<times> pystr list) list" where
  "MAPPING = [
    \<comment> \<open>Proizvoditel'\<close>
    ([1055, 1088, 1086, 1080, 1079, 1074, 1086, 1076, 1080, 1090, 1077, 1083, 1100],
     [[1041, 1088, 1077, 1085, 1076] \<comment> \<open>Brend\<close>,
      [1055, 1088, 1086, 1080, 1079, 1074, 1086, 1076, 1080, 1090, 1077, 1083, 1100] \<comment> \<open>Proizvoditel'\<close>,
      [1047, 1072, 1074, 1086, 1076, 1089, 1082, 1072, 1103, 32, 1084, 1072, 1088, 1082, 1080, 1088, 1086, 1074, 1082, 1072] \<comment> \<open>Zavodskaya markirovka\<close>
     ]),
    \<comment> \<open>Tsena\<close>
    ([1062, 1077, 1085, 1072],
     [[1062, 1077, 1085, 1072] \<comment> \<open>Tsena\<close>,
      [1056, 1086, 1079, 1085, 1080, 1095, 1085, 1072, 1103, 32, 1094, 1077, 1085, 1072] \<comment> \<open>Roznichnaya tsena\<close>,
      [1062, 1077, 1085, 1072, 32, 1089, 1086, 32, 1089, 1082, 1080, 1076, 1082, 1086, 1081] \<comment> \<open>Tsena so skidkoj\<close>,
      [1057, 1090, 1086, 1080, 1084, 1086, 1089, 1090, 1100] \<comment> \<open>Stoimost'\<close>,
      [80, 114, 105, 99, 101] \<comment> \<open>Price\<close>,
      [1056, 1056, 1062] \<comment> \<open>RRTs\<close>
     ]),
    \<comment> \<open>Moshchnost' v rezhime okhlazhdeniya\<close>
    ([1052, 1086, 1097, 1085, 1086, 1089, 1090, 1100, 32, 1074, 32, 1088, 1077, 1078, 1080, 1084, 1077, 32, 1086, 1093, 1083, 1072, 1078, 1076, 1077, 1085, 1080, 1103],
     [[1061, 1086, 1083, 1086, 1076, 1086, 1087, 1088, 1086, 1080, 1079, 1074, 1086, 1076, 1080, 1090, 1077, 1083, 1100, 1085, 1086, 1089, 1090, 1100, 32, 40, 1082, 1042, 1090, 41] \<comment> \<open>Kholodoproizvoditel'nost' (kVt)\<close>,
      [1053, 1086, 1084, 1080, 1085, 1072, 1083, 1100, 1085, 1072, 1103, 32, 1093, 1086, 1083, 1086, 1076, 1086, 1087, 1088, 1086, 1080, 1079, 1074, 1086, 1076, 1080, 1090, 1077, 1083, 1100, 1085, 1086, 1089, 1090, 1100, 44, 32, 1082, 1042, 1090] \<comment> \<open>Nominal'naya kholodoproizvoditel'nost', kVt\<close>,
      [1053, 1086, 1084, 1080, 1085, 1072, 1083, 1100, 1085, 1072, 1103, 32, 1093, 1086, 1083, 1086, 1076, 1086, 1087, 1088, 1086, 1080, 1079, 1074, 1086, 1076, 1080, 1090, 1077, 1083, 1100, 1085, 1086, 1089, 1090, 1100] \<comment> \<open>Nominal'naya kholodoproizvoditel'nost'\<close>,
      [1054, 1093, 1083, 1072, 1078, 1076, 1077, 1085, 1080, 1077, 32, 40, 1082, 1042, 1090, 41] \<comment> \<open>Okhlazhdenie (kVt)\<close>,
      [1055, 1088, 1086, 1080, 1079, 1074, 46, 32, 1093, 1086, 1083, 1086, 1076, 44, 32, 1082, 1042, 1090] \<comment> \<open>Proizv. kholod, kVt\<close>,
      [1055, 1088, 1086, 1080, 1079, 1074, 1086, 1076, 1080, 1090, 1077, 1083, 1100, 1085, 1086, 1089, 1090, 1100, 32, 1093, 1086, 1083, 1086, 1076, 32, 44, 32, 1082, 1042, 1090] \<comment> \<open>Proizvoditel'nost' kholod , kVt\<close>,
      [1061, 1086, 1083, 1086, 1076, 1086, 1087, 1088, 1086, 1080, 1079, 1074, 1086, 1076, 1080, 1090, 1077, 1083, 1100, 1085, 1086, 1089, 1090, 1100] \<comment> \<open>Kholodoproizvoditel'nost'\<close>,
      [1054, 1093, 1083, 1072, 1078, 1076, 1077, 1085, 1080, 1077, 32, 40, 1042, 1090, 41] \<comment> \<open>Okhlazhdenie (Vt)\<close>
     ]),
    \<comment> \<open>Tip khladagenta\<close>
    ([1058, 1080, 1087, 32, 1093, 1083, 1072, 1076, 1072, 1075, 1077, 1085, 1090, 1072],
     [[1058, 1080, 1087, 32, 1093, 1083, 1072, 1076, 1072, 1075, 1077, 1085, 1090, 1072] \<comment> \<open>Tip khladagenta\<close>,
      [1052, 1072, 1088, 1082, 1072, 32, 1092, 1088, 1077, 1086, 1085, 1072] \<comment> \<open>Marka freona\<close>
     ]),
    \<comment> \<open>Tsvet\<close>
    ([1062, 1074, 1077, 1090],
     [[1062, 1074, 1077, 1090, 32, 1074, 1085, 1091, 1090, 1088, 1077, 1085, 1085, 1077, 1075, 1086, 32, 1073, 1083, 1086, 1082, 1072] \<comment> \<open>Tsvet vnutrennego bloka\<close>,
      [1062, 1074, 1077, 1090, 32, 1087, 1088, 1080, 1073, 1086, 1088, 1072] \<comment> \<open>Tsvet pribora\<close>,
      [1062, 1074, 1077, 1090] \<comment> \<open>Tsvet\<close>
     ]),
    \<comment> \<open>Klass energopotrebleniya\<close>
    ([1050, 1083, 1072, 1089, 1089, 32, 1101, 1085, 1077, 1088, 1075, 1086, 1087, 1086, 1090, 1088, 1077, 1073, 1083, 1077, 1085, 1080, 1103],
     [[1050, 1083, 1072, 1089, 1089, 32, 1101, 1085, 1077, 1088, 1075, 1086, 1087, 1086, 1090, 1088, 1077, 1073, 1083, 1077, 1085, 1080, 1103] \<comment> \<open>Klass energopotrebleniya\<close>,
      [1050, 1083, 1072, 1089, 1089, 32, 1101, 1085, 1077, 1088, 1075, 1086, 1101, 1092, 1092, 1077, 1082, 1090, 1080, 1074, 1085, 1086, 1089, 1090, 1080, 32, 40, 1086, 1093, 1083, 1072, 1078, 1076, 1077, 1085, 1080, 1077, 41] \<comment> \<open>Klass energoeffektivnosti (okhlazhdenie)\<close>,
      [1050, 1083, 1072, 1089, 1089, 32, 1101, 1085, 1077, 1088, 1075, 1086, 1101, 1092, 1092, 1077, 1082, 1090, 1080, 1074, 1085, 1086, 1089, 1090, 1080, 32, 69, 69, 82, 32, 40, 1086, 1093, 1083, 1072, 1078, 1076, 1077, 1085, 1080, 1077, 41] \<comment> \<open>Klass energoeffektivnosti EER (okhlazhdenie)\<close>,
      [1050, 1083, 1072, 1089, 1089, 32, 1101, 1085, 1077, 1088, 1075, 1077, 1090, 1080, 1095, 1077, 1089, 1082, 1086, 1081, 32, 1101, 1092, 1092, 1077, 1082, 1090, 1080, 1074, 1085, 1086, 1089, 1090, 1080] \<comment> \<open>Klass energeticheskoj effektivnosti\<close>
     ]),
    \<comment> \<open>Invertor/Tip kompressora\<close>
    ([1048, 1085, 1074, 1077, 1088, 1090, 1086, 1088, 47, 1058, 1080, 1087, 32, 1082, 1086, 1084, 1087, 1088, 1077, 1089, 1089, 1086, 1088, 1072],
     [[1048, 1085, 1074, 1077, 1088, 1090, 1086, 1088, 1085, 1072, 1103, 32, 1090, 1077, 1093, 1085, 1086, 1083, 1086, 1075, 1080, 1103] \<comment> \<open>Invertornaya tekhnologiya\<close>,
      [1058, 1080, 1087, 32, 1082, 1086, 1084, 1087, 1088, 1077, 1089, 1089, 1086, 1088, 1072] \<comment> \<open>Tip kompressora\<close>,
      [1048, 1085, 1074, 1077, 1088, 1090, 1086, 1088] \<comment> \<open>Invertor\<close>,
      [1048, 1085, 1074, 1077, 1088, 1090, 1086, 1088, 1085, 1099, 1081, 32, 1082, 1086, 1084, 1087, 1088, 1077, 1089, 1089, 1086, 1088] \<comment> \<open>Invertornyj kompressor\<close>,
      [1058, 1080, 1087, 32, 1091, 1087, 1088, 1072, 1074, 1083, 1077, 1085, 1080, 1103, 32, 1082, 1086, 1084, 1087, 1088, 1077, 1089, 1089, 1086, 1088, 1086, 1084] \<comment> \<open>Tip upravleniya kompressorom\<close>
     ]),
    \<comment> \<open>Osnovnye rezhimy (rezhim raboty)\<close>
    ([1054, 1089, 1085, 1086, 1074, 1085, 1099, 1077, 32, 1088, 1077, 1078, 1080, 1084, 1099, 32, 40, 1088, 1077, 1078, 1080, 1084, 32, 1088, 1072, 1073, 1086, 1090, 1099, 41],
     [[1056, 1077, 1078, 1080, 1084, 32, 1088, 1072, 1073, 1086, 1090, 1099] \<comment> \<open>Rezhim raboty\<close>,
      [1054, 1089, 1085, 1086, 1074, 1085, 1099, 1077, 32, 1088, 1077, 1078, 1080, 1084, 1099, 32, 40, 1088, 1077, 1078, 1080, 1084, 32, 1088, 1072, 1073, 1086, 1090, 1099, 41] \<comment> \<open>Osnovnye rezhimy (rezhim raboty)\<close>,
      [1056, 1077, 1078, 1080, 1084, 1099, 32, 1088, 1072, 1073, 1086, 1090, 1099] \<comment> \<open>Rezhimy raboty\<close>
     ]),
    \<comment> \<open>Uroven' shuma\<close>
    ([1059, 1088, 1086, 1074, 1077, 1085, 1100, 32, 1096, 1091, 1084, 1072],
     [[1059, 1088, 1086, 1074, 1077, 1085, 1100, 32, 1096, 1091, 1084, 1072, 32, 1074, 1085, 1091, 1090, 1088, 1077, 1085, 1085, 1077, 1075, 1086, 32, 1073, 1083, 1086, 1082, 1072, 44, 32, 1076, 1041, 40, 1040, 41] \<comment> \<open>Uroven' shuma vnutrennego bloka, dB(A)\<close>,
      [1059, 1088, 1086, 1074, 1077, 1085, 1100, 32, 1096, 1091, 1084, 1072, 32, 1074, 1085, 1091, 1090, 1088, 1077, 1085, 1085, 1077, 1075, 1086, 32, 1073, 1083, 1086, 1082, 1072] \<comment> \<open>Uroven' shuma vnutrennego bloka\<close>,
      [1059, 1088, 1086, 1074, 1077, 1085, 1100, 32, 1079, 1074, 1091, 1082, 1086, 1074, 1086, 1075, 1086, 32, 1076, 1072, 1074, 1083, 1077, 1085, 1080, 1103, 32, 1076, 1041, 40, 1040, 41] \<comment> \<open>Uroven' zvukovogo davleniya dB(A)\<close>,
      [1052, 1080, 1085, 46, 32, 1091, 1088, 1086, 1074, 1077, 1085, 1100, 32, 1096, 1091, 1084, 1072, 32, 44, 32, 1076, 1041, 40, 1040, 41] \<comment> \<open>Min. uroven' shuma , dB(A)\<close>
     ]),
    \<comment> \<open>Maksimal'naya dlina kommunikatsij\<close>
    ([1052, 1072, 1082, 1089, 1080, 1084, 1072, 1083, 1100, 1085, 1072, 1103, 32, 1076, 1083, 1080, 1085, 1072, 32, 1082, 1086, 1084, 1084, 1091, 1085, 1080, 1082, 1072, 1094, 1080, 1081],
     [[1052, 1072, 1082, 1089, 1080, 1084, 1072, 1083, 1100, 1085, 1072, 1103, 32, 1076, 1083, 1080, 1085, 1072, 32, 1090, 1088, 1072, 1089, 1089, 1099] \<comment> \<open>Maksimal'naya dlina trassy\<close>,
      [77, 97, 120, 46, 1076, 1083, 1080, 1085, 1072, 32, 1084, 1072, 1075, 1080, 1089, 1090, 1088, 1072, 1083, 1080, 32, 44, 32, 1084] \<comment> \<open>Max.dlina magistrali , m\<close>,
      [1044, 1083, 1080, 1085, 1072, 32, 1090, 1088, 1072, 1089, 1089, 1099, 44, 32, 1084] \<comment> \<open>Dlina trassy, m\<close>,
      [1052, 1072, 1082, 1089, 1080, 1084, 1072, 1083, 1100, 1085, 1072, 1103, 32, 1076, 1083, 1080, 1085, 1072, 32, 1090, 1088, 1091, 1073, 44, 32, 1084] \<comment> \<open>Maksimal'naya dlina trub, m\<close>
     ]),
    \<comment> \<open>Model'\<close>
    ([1052, 1086, 1076, 1077, 1083, 1100],
     [[1053, 1072, 1079, 1074, 1072, 1085, 1080, 1077] \<comment> \<open>Nazvanie\<close>,
      [1052, 1086, 1076, 1077, 1083, 1100] \<comment> \<open>Model'\<close>,
      [1052, 1086, 1076, 1077, 1083, 1100, 32, 1074, 1085, 1091, 1090, 1088, 1077, 1085, 1085, 1077, 1075, 1086, 32, 1073, 1083, 1086, 1082, 1072] \<comment> \<open>Model' vnutrennego bloka\<close>
     ]),
    \<comment> \<open>Izobrazhenie\<close>
    ([1048, 1079, 1086, 1073, 1088, 1072, 1078, 1077, 1085, 1080, 1077],
     [[1048, 1079, 1086, 1073, 1088, 1072, 1078, 1077, 1085, 1080, 1103] \<comment> \<open>Izobrazheniya\<close>,
      [1060, 1072, 1081, 1083, 1099] \<comment> \<open>Fajly\<close>
     ])
  ]"

definition FILTER_KEYS :: "pystr list" where
  "FILTER_KEYS = [
    \<comment> \<open>Dopolnitel'nye fil'try tonkoj ochistki v komplekte\<close>
    [1044, 1086, 1087, 1086, 1083, 1085, 1080, 1090, 1077, 1083, 1100, 1085, 1099, 1077, 32, 1092, 1080, 1083, 1100, 1090, 1088, 1099, 32, 1090, 1086, 1085, 1082, 1086, 1081, 32, 1086, 1095, 1080, 1089, 1090, 1082, 1080, 32, 1074, 32, 1082, 1086, 1084, 1087, 1083, 1077, 1082, 1090, 1077],
    \<comment> \<open>Fil'tra\<close>
    [1060, 1080, 1083, 1100, 1090, 1088, 1072],
    \<comment> \<open>Vozdushnyj fil'tr\<close>
    [1042, 1086, 1079, 1076, 1091, 1096, 1085, 1099, 1081, 32, 1092, 1080, 1083, 1100, 1090, 1088]
  ]"

definition YES_VALUES :: "pystr set" where
  "YES_VALUES = {
    \<comment> \<open>da\<close>
    [1076, 1072],
    \<comment> \<open>+\<close>
    [43],
    \<comment> \<open>yes\<close>
    [121, 101, 115],
    \<comment> \<open>true\<close>
    [116, 114, 117, 101],
    \<comment> \<open>1\<close>
    [49],
    \<comment> \<open>est'\<close>
    [1077, 1089, 1090, 1100]
  }"

text \<open>The identifier column \<open>Artikul\<close>, and the derived column of the filters.\<close>

definition ARTIKUL :: pystr where
  "ARTIKUL = [1040, 1088, 1090, 1080, 1082, 1091, 1083]"

definition FILTERS_COLUMN :: pystr where
  \<comment> \<open>Fil'try tonkoj ochistki vozdukha\<close>
  "FILTERS_COLUMN = [1060, 1080, 1083, 1100, 1090, 1088, 1099, 32, 1090, 1086, 1085, 1082, 1086,
     1081, 32, 1086, 1095, 1080, 1089, 1090, 1082, 1080, 32, 1074, 1086, 1079, 1076, 1091, 1093,
     1072]"

definition MANUFACTURER :: pystr where
  \<comment> \<open>Proizvoditel'\<close>
  "MANUFACTURER = [1055, 1088, 1086, 1080, 1079, 1074, 1086, 1076, 1080, 1090, 1077, 1083, 1100]"

definition MARKER :: pystr where
  \<comment> \<open>fil'tr tonkoj ochistki\<close>
  "MARKER = [1092, 1080, 1083, 1100, 1090, 1088, 32, 1090, 1086, 1085, 1082, 1086, 1081, 32, 1086,
     1095, 1080, 1089, 1090, 1082, 1080]"

definition LABEL_PREFIX :: pystr where
  \<comment> \<open>Dopolnitel'nyj fil'tr tonkoj ochistki, and a space\<close>
  "LABEL_PREFIX = [1044, 1086, 1087, 1086, 1083, 1085, 1080, 1090, 1077, 1083, 1100, 1085, 1099,
     1081, 32, 1092, 1080, 1083, 1100, 1090, 1088, 32, 1090, 1086, 1085, 1082, 1086, 1081, 32,
     1086, 1095, 1080, 1089, 1090, 1082, 1080, 32]"

section \<open>Tables\<close>

text \<open>
  A row maps a column label to its cell; a \<open>DataFrame\<close> is its ordered column labels and
  its rows, in row order.  A pandas \<open>Series\<close> taken along the rows (one column) is the
  list of its cells.  Column labels are unique within a frame, as \<open>read_excel\<close> makes them.
\<close>

type_synonym row = "pystr \<Rightarrow> cell"

record dataframe =
  columns :: "pystr list"
  rows :: "row list"

text \<open>
  The ways \<open>process_catalog\<close> ends without writing a catalog: its two early returns (no
  data was loaded, the column \<open>Artikul\<close> is absent) and the exceptions that can leave it.
\<close>

datatype failure = NoData | ArtikulNotFound | KeyError pystr | TypeError

subsection \<open>\<open>load_data\<close>\<close>

text \<open>
  The reading of the files is input/output.  Each file the glob found is given by what the
  body of the \<open>try\<close> left: \<open>None\<close> when reading raised (the file is skipped), the frame
  with its stripped headers otherwise.
\<close>

fun read_files :: "dataframe option list \<Rightarrow> dataframe list \<Rightarrow> dataframe list" where
  "read_files [] dataframes = dataframes"
| "read_files (None # files) dataframes = read_files files dataframes"
| "read_files (Some df # files) dataframes = read_files files (dataframes @ [df])"

text \<open>
  \<open>pd.concat(dataframes, axis=0, ignore_index=True)\<close>: the columns are the union of the
  frames' columns in the order of their first appearance, the rows follow each other in
  the order of the frames, and a row is missing in every column its frame lacks.
\<close>

fun union_columns :: "pystr list \<Rightarrow> pystr list \<Rightarrow> pystr list" where
  "union_columns acc [] = acc"
| "union_columns acc (c # cs) = union_columns (if c \<in> set acc then acc else acc @ [c]) cs"

definition reindex :: "dataframe \<Rightarrow> row list" where
  "reindex df = map (\<lambda>r c. if c \<in> set (columns df) then r c else NaN) (rows df)"

definition pd_concat :: "dataframe list \<Rightarrow> dataframe" where
  "pd_concat dfs =
     \<lparr>columns = fold (\<lambda>df acc. union_columns acc (columns df)) dfs [],
      rows = concat (map reindex dfs)\<rparr>"

definition load_data :: "dataframe option list \<Rightarrow> dataframe option" where
  "load_data files =
     (if files = [] then None
      else let dataframes = read_files files []
           in if dataframes \<noteq> [] then Some (pd_concat dataframes) else None)"

subsection \<open>\<open>extract_filters\<close>\<close>

text \<open>
  The row is a \<open>Series\<close>: its index (the labels it has) and its cells.  Reading a label
  the row does not have raises \<open>KeyError\<close>.  The first loop runs over \<open>FILTER_KEYS\<close>, the
  second over \<open>boolean_cols\<close>; both append to \<open>active_filters\<close>.
\<close>

fun direct_loop :: "pystr list \<Rightarrow> row \<Rightarrow> pystr list \<Rightarrow> pystr list \<Rightarrow> pystr list" where
  "direct_loop index row [] active_filters = active_filters"
| "direct_loop index row (key # keys) active_filters =
     direct_loop index row keys
       (if key \<in> set index \<and> notna (row key) \<and> strip (str (row key)) \<noteq> []
        then active_filters @ [str (row key)] else active_filters)"

definition boolean_cols :: "pystr list \<Rightarrow> pystr list" where
  "boolean_cols source_columns =
     filter (\<lambda>c. contains (lower c) MARKER \<and> c \<notin> set FILTER_KEYS) source_columns"

fun flag_loop :: "pystr list \<Rightarrow> row \<Rightarrow> pystr list \<Rightarrow> pystr list \<Rightarrow> failure + pystr list" where
  "flag_loop index row [] active_filters = Inr active_filters"
| "flag_loop index row (col # cols) active_filters =
     (if col \<notin> set index then Inl (KeyError col)
      else let v = lower (strip (str (row col)))
           in flag_loop index row cols
                (if v \<in> YES_VALUES then active_filters @ [replace col LABEL_PREFIX []]
                 else active_filters))"

definition extract_filters :: "pystr list \<Rightarrow> row \<Rightarrow> pystr list \<Rightarrow> failure + cell" where
  "extract_filters index row source_columns =
     (case flag_loop index row (boolean_cols source_columns)
             (direct_loop index row FILTER_KEYS []) of
        Inl e \<Rightarrow> Inl e
      | Inr active_filters \<Rightarrow>
          Inr (if active_filters \<noteq> [] then Str (join [44, 32] active_filters) else NaN))"

subsection \<open>Column access\<close>

text \<open>
  \<open>df[c]\<close> reads a column.  \<open>df[c] = series\<close> writes one: a frame without columns takes
  its rows from the series, a new label is appended to the columns, an old one keeps its
  place.  \<open>df[c] = scalar\<close> writes the scalar into every row.
\<close>

definition getitem :: "dataframe \<Rightarrow> pystr \<Rightarrow> cell list" where
  "getitem df c = map (\<lambda>r. r c) (rows df)"

definition setitem :: "dataframe \<Rightarrow> pystr \<Rightarrow> cell list \<Rightarrow> dataframe" where
  "setitem df c series =
     (if columns df = [] then
        \<lparr>columns = [c], rows = map (\<lambda>v. (\<lambda>_. NaN)(c := v)) series\<rparr>
      else
        \<lparr>columns = (if c \<in> set (columns df) then columns df else columns df @ [c]),
         rows = map (\<lambda>(r, v). r(c := v)) (zip (rows df) series)\<rparr>)"

definition setitem_scalar :: "dataframe \<Rightarrow> pystr \<Rightarrow> cell \<Rightarrow> dataframe" where
  "setitem_scalar df c v =
     \<lparr>columns = (if c \<in> set (columns df) then columns df else columns df @ [c]),
      rows = map (\<lambda>r. r(c := v)) (rows df)\<rparr>"

subsection \<open>The canonical table\<close>

text \<open>
  The loop over \<open>MAPPING.items()\<close>: \<open>match\<close> is the first source label that is a column of
  the raw frame; the test \<open>if match\<close> also fails on an empty label.
\<close>

fun map_columns :: "dataframe \<Rightarrow> pystr list \<Rightarrow> (pystr \<times> pystr list) list \<Rightarrow> dataframe \<Rightarrow> dataframe" where
  "map_columns raw_df current_cols [] temp_df = temp_df"
| "map_columns raw_df current_cols ((target, sources) # items) temp_df =
     map_columns raw_df current_cols items
       (case find (\<lambda>s. s \<in> set current_cols) sources of
          Some match \<Rightarrow>
            if match \<noteq> [] then setitem temp_df target (getitem raw_df match)
            else setitem_scalar temp_df target NaN
        | None \<Rightarrow> setitem_scalar temp_df target NaN)"

text \<open>\<open>raw_df.apply(f, axis=1)\<close>: \<open>f\<close> on every row in turn; an exception ends it.\<close>

fun apply_rows :: "(row \<Rightarrow> failure + cell) \<Rightarrow> row list \<Rightarrow> failure + cell list" where
  "apply_rows f [] = Inr []"
| "apply_rows f (r # rs) =
     (case f r of
        Inl e \<Rightarrow> Inl e
      | Inr v \<Rightarrow> (case apply_rows f rs of Inl e \<Rightarrow> Inl e | Inr vs \<Rightarrow> Inr (v # vs)))"

text \<open>
  \<open>temp_df\<close> as it stands before the grouping: the identifier, the mapped fields, the
  filters.
\<close>

definition build_temp :: "dataframe \<Rightarrow> failure + dataframe" where
  "build_temp raw_df =
     (let current_cols = columns raw_df in
      if ARTIKUL \<notin> set current_cols then Inl ArtikulNotFound
      else
        let temp_df = setitem \<lparr>columns = [], rows = []\<rparr> ARTIKUL (getitem raw_df ARTIKUL);
            temp_df = map_columns raw_df current_cols MAPPING temp_df
        in case apply_rows (\<lambda>row. extract_filters current_cols row current_cols) (rows raw_df) of
             Inl e \<Rightarrow> Inl e
           | Inr filters \<Rightarrow> Inr (setitem temp_df FILTERS_COLUMN filters))"

subsection \<open>Merging the duplicates\<close>

text \<open>
  The order of the group keys: \<open>groupby\<close> sorts them, numbers before strings, numbers by
  value, strings by their code points.  A missing cell is never a key; it stands last.
\<close>

instantiation cell :: linorder
begin

fun less_eq_cell :: "cell \<Rightarrow> cell \<Rightarrow> bool" where
  "less_eq_cell (Num a) (Num b) = (a \<le> b)"
| "less_eq_cell (Num a) (Str b) = True"
| "less_eq_cell (Num a) NaN = True"
| "less_eq_cell (Str a) (Num b) = False"
| "less_eq_cell (Str a) (Str b) = (a \<le> b)"
| "less_eq_cell (Str a) NaN = True"
| "less_eq_cell NaN (Num b) = False"
| "less_eq_cell NaN (Str b) = False"
| "less_eq_cell NaN NaN = True"

definition less_cell :: "cell \<Rightarrow> cell \<Rightarrow> bool" where
  "less_cell a b = (a \<le> b \<and> \<not> b \<le> a)"

instance
proof
  fix x y z :: cell
  show "(x < y) = (x \<le> y \<and> \<not> y \<le> x)"
    by (simp add: less_cell_def)
  show "x \<le> x"
    by (cases x) simp_all
  show "x \<le> y \<Longrightarrow> y \<le> z \<Longrightarrow> x \<le> z"
    by (cases x; cases y; cases z) auto
  show "x \<le> y \<Longrightarrow> y \<le> x \<Longrightarrow> x = y"
    by (cases x; cases y) auto
  show "x \<le> y \<or> y \<le> x"
    by (cases x; cases y) auto
qed

end

text \<open>
  The aggregation \<open>x.dropna().iloc[0] if not x.dropna().empty else np.nan\<close> of one column
  of one group.
\<close>

definition first_valid :: "cell list \<Rightarrow> cell" where
  "first_valid x = (case filter notna x of [] \<Rightarrow> NaN | v # _ \<Rightarrow> v)"

text \<open>
  \<open>df.groupby(key, as_index=False).agg(...)\<close>: the keys are the distinct non-missing cells
  of the key column, sorted; a group is the rows of one key, in row order; the key column
  comes first, and every other column is aggregated on its own.
\<close>

definition group_keys :: "pystr \<Rightarrow> dataframe \<Rightarrow> cell list" where
  "group_keys key df = sort (remdups (filter notna (getitem df key)))"

definition group_rows :: "pystr \<Rightarrow> dataframe \<Rightarrow> cell \<Rightarrow> row list" where
  "group_rows key df k = filter (\<lambda>r. r key = k) (rows df)"

definition groupby_agg :: "pystr \<Rightarrow> dataframe \<Rightarrow> dataframe" where
  "groupby_agg key df =
     \<lparr>columns = key # removeAll key (columns df),
      rows = map (\<lambda>k c. if c = key then k else first_valid (map (\<lambda>r. r c) (group_rows key df k)))
                 (group_keys key df)\<rparr>"

subsection \<open>Sorting\<close>

text \<open>
  \<open>df.sort_values(by=col, na_position='last')\<close>.  The rows whose key is missing go last, in
  the order they had; the other rows are arranged by an argsort of their keys.  The script
  leaves the sorting algorithm at the default of pandas (\<open>kind='quicksort'\<close>), which
  pandas documents as not stable (only \<open>'mergesort'\<close> and \<open>'stable'\<close> are) and which is
  not part of the script, so the argsort is a parameter here.  Comparing a string with a
  number raises \<open>TypeError\<close>.
\<close>

definition mixed :: "cell list \<Rightarrow> bool" where
  "mixed ks = (list_ex (\<lambda>k. case k of Str _ \<Rightarrow> True | _ \<Rightarrow> False) ks
             \<and> list_ex (\<lambda>k. case k of Num _ \<Rightarrow> True | _ \<Rightarrow> False) ks)"

definition sort_values :: "(cell list \<Rightarrow> nat list) \<Rightarrow> pystr \<Rightarrow> dataframe \<Rightarrow> failure + dataframe" where
  "sort_values argsort col df =
     (let k = getitem df col;
          idx = [0..<length k];
          non_nan_idx = filter (\<lambda>i. notna (k ! i)) idx;
          nan_idx = filter (\<lambda>i. \<not> notna (k ! i)) idx;
          non_nans = map ((!) k) non_nan_idx
      in if mixed non_nans then Inl TypeError
         else let indexer = map ((!) non_nan_idx) (argsort non_nans) @ nan_idx
              in Inr (df\<lparr>rows := map ((!) (rows df)) indexer\<rparr>))"

text \<open>
  What is asked of an argsort: on keys that can be compared, it returns a permutation of
  the positions that puts the keys in ascending order.
\<close>

definition sorter_ok :: "(cell list \<Rightarrow> nat list) \<Rightarrow> bool" where
  "sorter_ok argsort =
     (\<forall>ks. \<not> mixed ks \<longrightarrow>
        mset (argsort ks) = mset [0..<length ks] \<and> sorted (map ((!) ks) (argsort ks)))"

text \<open>Two argsorts: insertion sort, and insertion sort of the positions taken backwards.\<close>

definition stable_argsort :: "cell list \<Rightarrow> nat list" where
  "stable_argsort ks = sort_key ((!) ks) [0..<length ks]"


subsection \<open>\<open>process_catalog\<close>\<close>

text \<open>
  \<open>final_df\<close> after the grouping, and the whole function: its result is the frame handed
  to \<open>to_excel\<close>, or the way it ended without one.
\<close>

definition merge_catalog :: "dataframe option list \<Rightarrow> failure + dataframe" where
  "merge_catalog files =
     (case load_data files of
        None \<Rightarrow> Inl NoData
      | Some raw_df \<Rightarrow>
          (case build_temp raw_df of
             Inl e \<Rightarrow> Inl e
           | Inr temp_df \<Rightarrow> Inr (groupby_agg ARTIKUL temp_df)))"

definition process_catalog :: "(cell list \<Rightarrow> nat list) \<Rightarrow> dataframe option list \<Rightarrow> failure + dataframe" where
  "process_catalog argsort files =
     (case merge_catalog files of
        Inl e \<Rightarrow> Inl e
      | Inr final_df \<Rightarrow>
          if MANUFACTURER \<in> set (columns final_df) then sort_values argsort MANUFACTURER final_df
          else Inr final_df)"

section \<open>Derived notions used in the statements\<close>

text \<open>
  The loop over \<open>MAPPING.items()\<close> read row by row: what the assignments make of the
  row \<open>t\<close> of \<open>temp_df\<close> that stands beside the row \<open>r\<close> of \<open>raw_df\<close>.
\<close>

fun assign_all :: "pystr list \<Rightarrow> (pystr \<times> pystr list) list \<Rightarrow> row \<Rightarrow> row \<Rightarrow> row" where
  "assign_all current_cols [] r t = t"
| "assign_all current_cols ((target, sources) # items) r t =
     assign_all current_cols items r
       (t(target := (case find (\<lambda>s. s \<in> set current_cols) sources of
                       Some match \<Rightarrow> if match \<noteq> [] then r match else NaN
                     | None \<Rightarrow> NaN)))"

text \<open>The cell \<open>extract_filters\<close> returns for a row of the raw frame.\<close>

definition filters_cell :: "pystr list \<Rightarrow> row \<Rightarrow> cell" where
  "filters_cell current_cols r =
     (case extract_filters current_cols r current_cols of Inr v \<Rightarrow> v | Inl e \<Rightarrow> NaN)"

text \<open>The row of \<open>temp_df\<close> that a row of the raw frame becomes.\<close>

definition canonical_row :: "pystr list \<Rightarrow> row \<Rightarrow> row" where
  "canonical_row current_cols r =
     (\<lambda>c. if c = FILTERS_COLUMN then filters_cell current_cols r
          else case map_of MAPPING c of
                 Some sources \<Rightarrow>
                   (case find (\<lambda>s. s \<in> set current_cols) sources of
                      Some match \<Rightarrow> r match
                    | None \<Rightarrow> NaN)
               | None \<Rightarrow> if c = ARTIKUL then r ARTIKUL else NaN)"

definition canonical_columns :: "pystr list" where
  "canonical_columns = ARTIKUL # map fst MAPPING @ [FILTERS_COLUMN]"

text \<open>\<open>temp_df\<close> in closed form: the canonical columns, and one canonical row for every raw row.\<close>

definition canonical_table :: "dataframe \<Rightarrow> dataframe" where
  "canonical_table raw_df =
     \<lparr>columns = canonical_columns,
      rows = map (canonical_row (columns raw_df)) (rows raw_df)\<rparr>"

text \<open>
  The first non-missing value, in the words of the specification: \<open>v\<close> is missing when
  every cell of \<open>x\<close> is, and otherwise \<open>v\<close> is the cell at the first position that is not
  missing.
\<close>

definition spec_first_non_missing :: "cell list \<Rightarrow> cell \<Rightarrow> bool" where
  "spec_first_non_missing x v =
     (if list_all (\<lambda>u. u = NaN) x then v = NaN
      else \<exists>i<length x. v = x ! i \<and> x ! i \<noteq> NaN \<and> (\<forall>j<i. x ! j = NaN))"


section \<open>Example tables\<close>

text \<open>A row given by its labelled cells, and a string given by its ASCII characters.\<close>

definition row_of :: "(pystr \<times> cell) list \<Rightarrow> row" where
  "row_of kvs = (\<lambda>c. case map_of kvs c of Some v \<Rightarrow> v | None \<Rightarrow> NaN)"

definition ascii :: "string \<Rightarrow> pystr" where
  "ascii s = map of_char s"

text \<open>The labels \<open>Brend\<close> and \<open>Tsena\<close>.\<close>

definition BRAND :: pystr where
  "BRAND = [1041, 1088, 1077, 1085, 1076]"

definition PRICE :: pystr where
  "PRICE = [1062, 1077, 1085, 1072]"

text \<open>Two shops: the first names the maker \<open>Brend\<close>, the second \<open>Proizvoditel'\<close>.\<close>

definition shop_a :: dataframe where
  "shop_a = \<lparr>columns = [ARTIKUL, BRAND, PRICE],
             rows = [row_of [(ARTIKUL, Str (ascii ''X'')), (BRAND, Str (ascii ''Acme'')), (PRICE, NaN)],
                     row_of [(ARTIKUL, Str (ascii ''Y'')), (BRAND, Str (ascii ''Bolt'')), (PRICE, Num 100)]]\<rparr>"

definition shop_b :: dataframe where
  "shop_b = \<lparr>columns = [ARTIKUL, MANUFACTURER, PRICE],
             rows = [row_of [(ARTIKUL, Str (ascii ''X'')), (MANUFACTURER, Str (ascii ''Zeta'')), (PRICE, Num 100)],
                     row_of [(ARTIKUL, NaN), (MANUFACTURER, Str (ascii ''Zeta'')), (PRICE, Num 5)],
                     row_of [(ARTIKUL, Str (ascii ''Y'')), (MANUFACTURER, NaN), (PRICE, Num 200)]]\<rparr>"

definition two_shops :: "dataframe option list" where
  "two_shops = [Some shop_a, None, Some shop_b]"

text \<open>A table without the identifier column.\<close>

definition no_artikul :: dataframe where
  "no_artikul = \<lparr>columns = [BRAND, PRICE],
                 rows = [row_of [(BRAND, Str (ascii ''Acme'')), (PRICE, Num 100)]]\<rparr>"


text \<open>
  Filter columns: the direct column \<open>Fil'tra\<close>, the flag column made of the prefix and
  \<open>ugol'nyj\<close>, and a flag column written in capitals (\<open>FIL'TR TONKOJ OCHISTKI Z\<close>); the
  answers \<open>da\<close> and \<open>net\<close>.
\<close>

definition FILTRA :: pystr where
  "FILTRA = [1060, 1080, 1083, 1100, 1090, 1088, 1072]"

definition COAL :: pystr where
  "COAL = [1091, 1075, 1086, 1083, 1100, 1085, 1099, 1081]"

definition COAL_FLAG :: pystr where
  "COAL_FLAG = LABEL_PREFIX @ COAL"

definition SHOUTED_FLAG :: pystr where
  "SHOUTED_FLAG = [1060, 1048, 1051, 1068, 1058, 1056, 32, 1058, 1054, 1053, 1050, 1054, 1049, 32,
     1054, 1063, 1048, 1057, 1058, 1050, 1048, 32, 90]"

definition DA :: pystr where
  "DA = [1076, 1072]"


definition filter_columns :: "pystr list" where
  "filter_columns = [ARTIKUL, FILTRA, COAL_FLAG, SHOUTED_FLAG]"







section \<open>The filter extractor\<close>

lemma direct_loop_eq:
  "direct_loop index row keys acc =
     acc @ map (\<lambda>k. str (row k))
             (filter (\<lambda>k. k \<in> set index \<and> notna (row k) \<and> strip (str (row k)) \<noteq> []) keys)"
  by (induction keys arbitrary: acc) simp_all

lemma flag_loop_eq:
  "set cols \<subseteq> set index \<Longrightarrow>
   flag_loop index row cols acc =
     Inr (acc @ map (\<lambda>c. replace c LABEL_PREFIX [])
                  (filter (\<lambda>c. lower (strip (str (row c))) \<in> YES_VALUES) cols))"
  by (induction cols arbitrary: acc) (simp_all add: Let_def)

lemma boolean_cols_subset: "set (boolean_cols cs) \<subseteq> set cs"
  by (auto simp: boolean_cols_def)


lemma extract_filters_eq:
  assumes "set source_columns \<subseteq> set index"
  shows "extract_filters index row source_columns =
     Inr (let active =
            map (\<lambda>k. str (row k))
              (filter (\<lambda>k. k \<in> set index \<and> notna (row k) \<and> strip (str (row k)) \<noteq> [])
                 FILTER_KEYS)
            @ map (\<lambda>c. replace c LABEL_PREFIX [])
                (filter (\<lambda>c. lower (strip (str (row c))) \<in> YES_VALUES)
                   (boolean_cols source_columns))
          in if active \<noteq> [] then Str (join [44, 32] active) else NaN)"
proof -
  have "set (boolean_cols source_columns) \<subseteq> set index"
    using assms boolean_cols_subset by blast
  then show ?thesis
    by (simp add: extract_filters_def flag_loop_eq direct_loop_eq Let_def)
qed

lemma extract_filters_cell:
  "extract_filters cols r cols = Inr (filters_cell cols r)"
  by (simp add: filters_cell_def extract_filters_eq)

lemma apply_rows_Inr:
  "(\<And>r. r \<in> set rs \<Longrightarrow> f r = Inr (g r)) \<Longrightarrow> apply_rows f rs = Inr (map g rs)"
  by (induction rs) simp_all

section \<open>The configuration\<close>

lemma MAPPING_distinct: "distinct (map fst MAPPING)"
  by (simp add: MAPPING_def)

lemma ARTIKUL_not_target: "ARTIKUL \<notin> set (map fst MAPPING)"
  by (simp add: MAPPING_def ARTIKUL_def)

lemma FILTERS_not_target: "FILTERS_COLUMN \<notin> set (map fst MAPPING)"
  by (simp add: MAPPING_def FILTERS_COLUMN_def)

lemma FILTERS_not_ARTIKUL: "FILTERS_COLUMN \<noteq> ARTIKUL"
  by (simp add: ARTIKUL_def FILTERS_COLUMN_def)

lemma MANUFACTURER_target: "MANUFACTURER \<in> set (map fst MAPPING)"
  by (simp add: MAPPING_def MANUFACTURER_def)

lemma MAPPING_no_empty_alias: "(t, ss) \<in> set MAPPING \<Longrightarrow> [] \<notin> set ss"
  by (auto simp: MAPPING_def)

section \<open>The canonical table\<close>

lemma union_columns_fresh:
  "distinct xs \<Longrightarrow> set xs \<inter> set acc = {} \<Longrightarrow> union_columns acc xs = acc @ xs"
  by (induction xs arbitrary: acc) auto

lemma columns_setitem: "columns (setitem df c s) = union_columns (columns df) [c]"
  by (simp add: setitem_def)

lemma columns_setitem_scalar: "columns (setitem_scalar df c v) = union_columns (columns df) [c]"
  by (simp add: setitem_scalar_def)

lemma columns_map_columns:
  "columns (map_columns raw cols items temp) = union_columns (columns temp) (map fst items)"
proof (induction items arbitrary: temp)
  case Nil
  then show ?case by simp
next
  case (Cons item items)
  obtain target sources where item: "item = (target, sources)"
    by (cases item)
  show ?case
    unfolding item
    by (simp add: Cons.IH columns_setitem columns_setitem_scalar
          split: option.splits)
qed

lemma rows_setitem:
  "columns df \<noteq> [] \<Longrightarrow> length s = length (rows df) \<Longrightarrow>
   rows (setitem df c s) = map (\<lambda>i. (rows df ! i)(c := s ! i)) [0..<length (rows df)]"
  by (auto simp: setitem_def intro!: nth_equalityI)

lemma rows_setitem_scalar:
  "rows (setitem_scalar df c v) = map (\<lambda>i. (rows df ! i)(c := v)) [0..<length (rows df)]"
  by (auto simp: setitem_scalar_def intro!: nth_equalityI)

lemma rows_map_columns:
  "columns temp \<noteq> [] \<Longrightarrow> length (rows temp) = length (rows raw) \<Longrightarrow>
   rows (map_columns raw cols items temp) =
     map (\<lambda>i. assign_all cols items (rows raw ! i) (rows temp ! i)) [0..<length (rows raw)]"
proof (induction items arbitrary: temp)
  case Nil
  then show ?case
    by (auto intro!: nth_equalityI)
next
  case (Cons item items)
  obtain target sources where item: "item = (target, sources)"
    by (cases item)
  define x where "x = (\<lambda>r. case find (\<lambda>s. s \<in> set cols) sources of
        Some m \<Rightarrow> if m \<noteq> [] then r m else NaN | None \<Rightarrow> NaN)"
  define temp' where "temp' = (case find (\<lambda>s. s \<in> set cols) sources of
        Some m \<Rightarrow> if m \<noteq> [] then setitem temp target (getitem raw m)
                  else setitem_scalar temp target NaN
      | None \<Rightarrow> setitem_scalar temp target NaN)"
  have cols': "columns temp' \<noteq> []"
    using Cons.prems(1)
    by (auto simp: temp'_def columns_setitem columns_setitem_scalar split: option.splits)
  have rows': "rows temp' = map (\<lambda>i. (rows temp ! i)(target := x (rows raw ! i))) [0..<length (rows raw)]"
    using Cons.prems
    by (auto simp: temp'_def x_def rows_setitem rows_setitem_scalar getitem_def
          split: option.splits)
  then have len': "length (rows temp') = length (rows raw)"
    by simp
  have nth': "rows temp' ! i = (rows temp ! i)(target := x (rows raw ! i))"
    if "i < length (rows raw)" for i
    using that by (simp add: rows')
  have "rows (map_columns raw cols (item # items) temp) = rows (map_columns raw cols items temp')"
    by (simp add: item temp'_def)
  also have "\<dots> = map (\<lambda>i. assign_all cols items (rows raw ! i) (rows temp' ! i)) [0..<length (rows raw)]"
    by (rule Cons.IH [OF cols' len'])
  also have "\<dots> = map (\<lambda>i. assign_all cols (item # items) (rows raw ! i) (rows temp ! i)) [0..<length (rows raw)]"
    by (rule map_cong [OF refl]) (simp add: nth' item x_def)
  finally show ?case .
qed

lemma assign_all_eq:
  "assign_all cols items r t c =
     (case map_of (rev items) c of
        None \<Rightarrow> t c
      | Some sources \<Rightarrow>
          (case find (\<lambda>s. s \<in> set cols) sources of
             Some m \<Rightarrow> if m \<noteq> [] then r m else NaN
           | None \<Rightarrow> NaN))"
proof (induction items arbitrary: t)
  case Nil
  then show ?case by simp
next
  case (Cons item items)
  obtain target sources where item: "item = (target, sources)"
    by (cases item)
  show ?case
    by (simp add: item Cons.IH map_add_def split: option.splits)
qed

lemma map_of_rev_distinct:
  "distinct (map fst xs) \<Longrightarrow> map_of (rev xs) = map_of xs"
proof (induction xs)
  case Nil
  then show ?case by simp
next
  case (Cons x xs)
  then have "fst x \<notin> dom (map_of xs)"
    by (simp add: dom_map_of_conv_image_fst)
  then show ?case
    using Cons by (cases x) (auto simp: map_add_def fun_eq_iff split: option.splits)
qed

lemma find_nonempty:
  "[] \<notin> set ss \<Longrightarrow> find P ss = Some m \<Longrightarrow> m \<noteq> []"
  by (metis find_Some_iff nth_mem)

lemma assign_all_MAPPING:
  "assign_all cols MAPPING r ((\<lambda>_. NaN)(ARTIKUL := r ARTIKUL)) c =
     (case map_of MAPPING c of
        Some sources \<Rightarrow>
          (case find (\<lambda>s. s \<in> set cols) sources of Some m \<Rightarrow> r m | None \<Rightarrow> NaN)
      | None \<Rightarrow> if c = ARTIKUL then r ARTIKUL else NaN)"
proof (cases "map_of MAPPING c")
  case None
  then show ?thesis
    by (simp add: assign_all_eq map_of_rev_distinct [OF MAPPING_distinct])
next
  case (Some sources)
  then have "(c, sources) \<in> set MAPPING"
    by (rule map_of_SomeD)
  then have "[] \<notin> set sources"
    by (rule MAPPING_no_empty_alias)
  then show ?thesis
    using Some
    by (auto simp: assign_all_eq map_of_rev_distinct [OF MAPPING_distinct]
          split: option.splits dest: find_nonempty)
qed

lemma build_temp_eq:
  assumes "ARTIKUL \<in> set (columns raw_df)"
  shows "build_temp raw_df = Inr (canonical_table raw_df)"
proof -
  let ?cols = "columns raw_df"
  let ?t0 = "setitem \<lparr>columns = [], rows = []\<rparr> ARTIKUL (getitem raw_df ARTIKUL)"
  let ?t1 = "map_columns raw_df ?cols MAPPING ?t0"
  have c0: "columns ?t0 = [ARTIKUL]"
    by (simp add: setitem_def)
  have r0: "rows ?t0 = map (\<lambda>r. (\<lambda>_. NaN)(ARTIKUL := r ARTIKUL)) (rows raw_df)"
    by (simp add: setitem_def getitem_def)
  have c1: "columns ?t1 = ARTIKUL # map fst MAPPING"
    using ARTIKUL_not_target
    by (simp add: columns_map_columns c0 union_columns_fresh [OF MAPPING_distinct])
  have r1: "rows ?t1 = map (\<lambda>i. assign_all ?cols MAPPING (rows raw_df ! i) (rows ?t0 ! i))
                         [0..<length (rows raw_df)]"
    by (rule rows_map_columns) (simp_all add: c0 r0)
  have f: "apply_rows (\<lambda>row. extract_filters ?cols row ?cols) (rows raw_df)
             = Inr (map (filters_cell ?cols) (rows raw_df))"
    by (rule apply_rows_Inr) (rule extract_filters_cell)
  have c2: "columns (setitem ?t1 FILTERS_COLUMN (map (filters_cell ?cols) (rows raw_df)))
              = canonical_columns"
    using FILTERS_not_target FILTERS_not_ARTIKUL
    by (simp add: columns_setitem c1 canonical_columns_def)
  have r2: "rows (setitem ?t1 FILTERS_COLUMN (map (filters_cell ?cols) (rows raw_df)))
              = map (canonical_row ?cols) (rows raw_df)"
  proof (rule nth_equalityI)
    show "length (rows (setitem ?t1 FILTERS_COLUMN (map (filters_cell ?cols) (rows raw_df))))
            = length (map (canonical_row ?cols) (rows raw_df))"
      by (simp add: rows_setitem c1 r1)
  next
    fix i
    assume "i < length (rows (setitem ?t1 FILTERS_COLUMN (map (filters_cell ?cols) (rows raw_df))))"
    then have i: "i < length (rows raw_df)"
      by (simp add: rows_setitem c1 r1)
    show "rows (setitem ?t1 FILTERS_COLUMN (map (filters_cell ?cols) (rows raw_df))) ! i
            = map (canonical_row ?cols) (rows raw_df) ! i"
      using i
      by (auto simp: rows_setitem c1 r1 r0 canonical_row_def assign_all_MAPPING fun_eq_iff)
  qed
  show ?thesis
    using assms
    by (simp add: build_temp_def Let_def f canonical_table_def)
      (rule dataframe.equality, simp_all add: c2 r2)
qed

section \<open>Merging the duplicates\<close>

lemma notna_iff: "notna v \<longleftrightarrow> v \<noteq> NaN"
  by (cases v) simp_all

lemma first_valid_spec: "spec_first_non_missing x (first_valid x)"
proof (induction x)
  case Nil
  then show ?case
    by (simp add: spec_first_non_missing_def first_valid_def)
next
  case (Cons a x)
  show ?case
  proof (cases "a = NaN")
    case True
    have fv: "first_valid (a # x) = first_valid x"
      using True by (simp add: first_valid_def)
    show ?thesis
    proof (cases "list_all (\<lambda>u. u = NaN) x")
      case all: True
      then show ?thesis
        using Cons True fv by (simp add: spec_first_non_missing_def)
    next
      case False
      then obtain i where i: "i < length x" "first_valid x = x ! i" "x ! i \<noteq> NaN"
          "\<forall>j<i. x ! j = NaN"
        using Cons by (auto simp: spec_first_non_missing_def)
      have "\<forall>j<Suc i. (a # x) ! j = NaN"
        using i(4) True by (auto simp: nth_Cons split: nat.splits)
      then have w: "Suc i < length (a # x) \<and> first_valid (a # x) = (a # x) ! Suc i
          \<and> (a # x) ! Suc i \<noteq> NaN \<and> (\<forall>j<Suc i. (a # x) ! j = NaN)"
        using i fv by simp
      have nall: "\<not> list_all (\<lambda>u. u = NaN) (a # x)"
        using False by simp
      show ?thesis
        unfolding spec_first_non_missing_def if_not_P [OF nall] using w by blast
    qed
  next
    case False
    then have "first_valid (a # x) = a"
      by (simp add: first_valid_def notna_iff)
    then have w: "0 < length (a # x) \<and> first_valid (a # x) = (a # x) ! 0 \<and> (a # x) ! 0 \<noteq> NaN
        \<and> (\<forall>j<0. (a # x) ! j = NaN)"
      using False by simp
    have nall: "\<not> list_all (\<lambda>u. u = NaN) (a # x)"
      using False by simp
    show ?thesis
      unfolding spec_first_non_missing_def if_not_P [OF nall] using w by blast
  qed
qed

lemma spec_first_non_missing_unique:
  assumes "spec_first_non_missing x v" "spec_first_non_missing x w"
  shows "v = w"
proof (cases "list_all (\<lambda>u. u = NaN) x")
  case True
  then show ?thesis
    using assms by (simp add: spec_first_non_missing_def)
next
  case False
  obtain i where i: "i < length x" "v = x ! i" "x ! i \<noteq> NaN" "\<forall>j<i. x ! j = NaN"
    using assms(1) False by (auto simp: spec_first_non_missing_def)
  obtain k where k: "k < length x" "w = x ! k" "x ! k \<noteq> NaN" "\<forall>j<k. x ! j = NaN"
    using assms(2) False by (auto simp: spec_first_non_missing_def)
  have "i = k"
    using i k by (meson linorder_neqE_nat)
  then show ?thesis
    using i k by simp
qed

lemma set_group_keys:
  "set (group_keys key df) = {v \<in> set (getitem df key). v \<noteq> NaN}"
  by (auto simp: group_keys_def notna_iff)

lemma distinct_group_keys: "distinct (group_keys key df)"
  by (simp add: group_keys_def)

lemma length_group_keys:
  "length (group_keys key df) = card {v \<in> set (getitem df key). v \<noteq> NaN}"
  using distinct_card [OF distinct_group_keys, of key df]
  by (simp add: set_group_keys)

lemma columns_groupby_agg: "columns (groupby_agg key df) = key # removeAll key (columns df)"
  by (simp add: groupby_agg_def)

lemma length_rows_groupby_agg:
  "length (rows (groupby_agg key df)) = card {v \<in> set (getitem df key). v \<noteq> NaN}"
  by (simp add: groupby_agg_def length_group_keys)

lemma getitem_groupby_agg_key: "getitem (groupby_agg key df) key = group_keys key df"
  by (simp add: groupby_agg_def getitem_def comp_def)

lemma first_valid_key:
  assumes "k \<in> set (group_keys key df)"
  shows "first_valid (map (\<lambda>r. r key) (group_rows key df k)) = k"
proof -
  from assms obtain t where t: "t \<in> set (rows df)" "t key = k" and k: "k \<noteq> NaN"
    by (auto simp: set_group_keys getitem_def)
  then have ne: "group_rows key df k \<noteq> []"
    by (auto simp: group_rows_def filter_empty_conv)
  have "map (\<lambda>r. r key) (group_rows key df k) = replicate (length (group_rows key df k)) k"
    by (auto simp: group_rows_def intro!: replicate_eqI)
  moreover have "filter notna (replicate n k) = replicate n k" for n
    using k by (simp add: notna_iff)
  ultimately show ?thesis
    using ne k by (cases "length (group_rows key df k)") (simp_all add: first_valid_def notna_iff)
qed

lemma rows_groupby_agg:
  assumes "r \<in> set (rows (groupby_agg key df))"
  shows "r key \<in> set (group_keys key df)"
    and "r c = first_valid (map (\<lambda>t. t c) (group_rows key df (r key)))"
proof -
  from assms obtain k where k: "k \<in> set (group_keys key df)"
    and r: "r = (\<lambda>c. if c = key then k else first_valid (map (\<lambda>t. t c) (group_rows key df k)))"
    by (auto simp: groupby_agg_def)
  show "r key \<in> set (group_keys key df)"
    using k r by simp
  show "r c = first_valid (map (\<lambda>t. t c) (group_rows key df (r key)))"
    using k r first_valid_key [OF k] by simp
qed

section \<open>Sorting\<close>

lemma map_nth_filter:
  "map ((!) xs) (filter (\<lambda>i. P (xs ! i)) [0..<length xs]) = filter P xs"
proof -
  have "filter P (map ((!) xs) [0..<length xs]) = filter P xs"
    by (simp add: map_nth)
  then show ?thesis
    by (simp add: filter_map comp_def)
qed

lemma sorter_ok_stable: "sorter_ok stable_argsort"
  by (simp add: sorter_ok_def stable_argsort_def)


lemma sort_values_eq:
  "sort_values argsort col df =
     (if mixed (filter notna (getitem df col)) then Inl TypeError
      else Inr (df\<lparr>rows := map ((!) (rows df))
                  (map ((!) (filter (\<lambda>i. notna (getitem df col ! i)) [0..<length (rows df)]))
                     (argsort (filter notna (getitem df col)))
                   @ filter (\<lambda>i. \<not> notna (getitem df col ! i)) [0..<length (rows df)])\<rparr>))"
proof -
  have "map ((!) (getitem df col))
          (filter (\<lambda>i. notna (getitem df col ! i)) [0..<length (getitem df col)])
        = filter notna (getitem df col)"
    by (rule map_nth_filter)
  moreover have "length (getitem df col) = length (rows df)"
    by (simp add: getitem_def)
  ultimately show ?thesis
    by (simp add: sort_values_def Let_def)
qed

lemma sort_values_columns:
  "sort_values argsort col df = Inr out \<Longrightarrow> columns out = columns df"
  by (auto simp: sort_values_eq split: if_splits)

lemma sort_values_sorted:
  assumes ok: "sorter_ok argsort" and res: "sort_values argsort col df = Inr out"
  shows "mset (rows out) = mset (rows df)"
    and "getitem out col =
           map ((!) (filter notna (getitem df col))) (argsort (filter notna (getitem df col)))
           @ filter (\<lambda>v. \<not> notna v) (getitem df col)"
    and "sorted (map ((!) (filter notna (getitem df col))) (argsort (filter notna (getitem df col))))"
    and "filter (\<lambda>r. \<not> notna (r col)) (rows out) = filter (\<lambda>r. \<not> notna (r col)) (rows df)"
proof -
  define k where "k = getitem df col"
  define n where "n = length (rows df)"
  define ks where "ks = filter notna k"
  define p where "p = argsort ks"
  define nn where "nn = filter (\<lambda>i. notna (k ! i)) [0..<n]"
  define na where "na = filter (\<lambda>i. \<not> notna (k ! i)) [0..<n]"
  have len_k: "length k = n"
    by (simp add: k_def n_def getitem_def)
  have k_nth: "k ! i = (rows df ! i) col" if "i < n" for i
    using that by (simp add: k_def n_def getitem_def)
  have not_mixed: "\<not> mixed ks"
    using res by (auto simp: sort_values_eq ks_def k_def split: if_splits)
  have out: "out = df\<lparr>rows := map ((!) (rows df)) (map ((!) nn) p @ na)\<rparr>"
    using res not_mixed
    by (simp add: sort_values_eq ks_def k_def p_def nn_def na_def n_def)
  have p_mset: "mset p = mset [0..<length ks]" and p_sorted: "sorted (map ((!) ks) p)"
    using ok not_mixed by (simp_all add: sorter_ok_def p_def)
  have nn_ks: "map ((!) k) nn = ks"
    unfolding nn_def ks_def len_k [symmetric] by (rule map_nth_filter)
  then have len_nn: "length nn = length ks"
    by (metis length_map)
  have na_k: "map ((!) k) na = filter (\<lambda>v. \<not> notna v) k"
    unfolding na_def len_k [symmetric] by (rule map_nth_filter)
  have p_set: "set p = {0..<length ks}"
    using p_mset by (metis mset_eq_setD set_upt)
  have "mset (map ((!) nn) p) = image_mset ((!) nn) (mset [0..<length nn])"
    using p_mset by (simp add: len_nn)
  also have "\<dots> = mset (map ((!) nn) [0..<length nn])"
    by simp
  also have "\<dots> = mset nn"
    by (simp add: map_nth)
  finally have first: "mset (map ((!) nn) p) = mset nn" .
  have "mset nn + mset na = mset [0..<n]"
    unfolding nn_def na_def mset_filter by (rule multiset_partition [symmetric])
  then have idx: "mset (map ((!) nn) p @ na) = mset [0..<n]"
    using first by simp
  then have idx_set: "set (map ((!) nn) p @ na) = {0..<n}"
    by (metis mset_eq_setD set_upt)
  have ro: "rows out = map ((!) (rows df)) (map ((!) nn) p @ na)"
    by (simp add: out)
  have "mset (rows out) = image_mset ((!) (rows df)) (mset (map ((!) nn) p @ na))"
    by (simp only: ro mset_map)
  also have "\<dots> = mset (map ((!) (rows df)) [0..<n])"
    by (simp only: idx mset_map)
  also have "\<dots> = mset (rows df)"
    by (simp add: n_def map_nth)
  finally show "mset (rows out) = mset (rows df)" .
  have key_at: "(rows df ! i) col = k ! i" if "i \<in> set (map ((!) nn) p @ na)" for i
  proof -
    have "i \<in> {0..<n}"
      using that unfolding idx_set .
    then show ?thesis
      using k_nth by simp
  qed
  have "getitem out col = map (\<lambda>i. (rows df ! i) col) (map ((!) nn) p @ na)"
    by (simp add: out getitem_def comp_def)
  also have "\<dots> = map ((!) k) (map ((!) nn) p @ na)"
    by (rule map_cong [OF refl]) (rule key_at)
  also have "\<dots> = map (\<lambda>j. k ! (nn ! j)) p @ filter (\<lambda>v. \<not> notna v) k"
    by (simp add: na_k comp_def)
  also have "map (\<lambda>j. k ! (nn ! j)) p = map ((!) ks) p"
  proof (rule map_cong [OF refl])
    fix j
    assume "j \<in> set p"
    then have "j < length nn"
      using p_set len_nn by simp
    then show "k ! (nn ! j) = ks ! j"
      using nn_ks by (metis nth_map)
  qed
  finally show "getitem out col =
      map ((!) (filter notna (getitem df col))) (argsort (filter notna (getitem df col)))
      @ filter (\<lambda>v. \<not> notna v) (getitem df col)"
    by (simp add: ks_def k_def p_def)
  show "sorted (map ((!) (filter notna (getitem df col))) (argsort (filter notna (getitem df col))))"
    using p_sorted by (simp add: ks_def k_def p_def)
  have in_nn: "notna ((rows df ! i) col)" if "i \<in> set (map ((!) nn) p)" for i
  proof -
    from that obtain j where "j \<in> set p" "i = nn ! j"
      by auto
    then have "i \<in> set nn"
      using p_set len_nn by simp
    then show ?thesis
      using k_nth by (auto simp: nn_def)
  qed
  have "filter (\<lambda>r. \<not> notna (r col)) (rows out)
          = map ((!) (rows df)) (filter (\<lambda>i. \<not> notna ((rows df ! i) col)) (map ((!) nn) p @ na))"
    by (simp add: out filter_map comp_def)
  also have "filter (\<lambda>i. \<not> notna ((rows df ! i) col)) (map ((!) nn) p @ na)
          = filter (\<lambda>i. \<not> notna ((rows df ! i) col)) na"
    using in_nn by (simp add: filter_empty_conv)
  also have "\<dots> = filter (\<lambda>i. \<not> notna ((rows df ! i) col)) [0..<length (rows df)]"
    unfolding na_def n_def filter_filter
    by (rule filter_cong [OF refl]) (simp add: k_def getitem_def)
  also have "map ((!) (rows df)) \<dots> = filter (\<lambda>r. \<not> notna (r col)) (rows df)"
    by (rule map_nth_filter)
  finally show "filter (\<lambda>r. \<not> notna (r col)) (rows out) = filter (\<lambda>r. \<not> notna (r col)) (rows df)" .
qed

section \<open>The pipeline in closed form\<close>

lemma map_of_MAPPING_target:
  "(target, sources) \<in> set MAPPING \<Longrightarrow> map_of MAPPING target = Some sources"
  using MAPPING_distinct by (rule map_of_is_SomeI)

lemma target_not_FILTERS: "(target, sources) \<in> set MAPPING \<Longrightarrow> target \<noteq> FILTERS_COLUMN"
  using FILTERS_not_target by (metis fst_conv image_eqI set_map)

lemma target_not_ARTIKUL: "(target, sources) \<in> set MAPPING \<Longrightarrow> target \<noteq> ARTIKUL"
  using ARTIKUL_not_target by (metis fst_conv image_eqI set_map)

lemma canonical_row_ARTIKUL: "canonical_row cols r ARTIKUL = r ARTIKUL"
proof -
  have "map_of MAPPING ARTIKUL = None"
    using ARTIKUL_not_target by (simp add: map_of_eq_None_iff)
  then show ?thesis
    using FILTERS_not_ARTIKUL by (auto simp: canonical_row_def)
qed

lemma canonical_row_target:
  "(target, sources) \<in> set MAPPING \<Longrightarrow>
   canonical_row cols r target =
     (case find (\<lambda>s. s \<in> set cols) sources of Some m \<Rightarrow> r m | None \<Rightarrow> NaN)"
  by (simp add: canonical_row_def map_of_MAPPING_target target_not_FILTERS)


lemma canonical_row_other:
  assumes "c \<notin> set canonical_columns"
  shows "canonical_row cols r c = NaN"
proof -
  have "map_of MAPPING c = None"
    using assms by (simp add: canonical_columns_def map_of_eq_None_iff)
  then show ?thesis
    using assms by (auto simp: canonical_row_def canonical_columns_def)
qed

lemma getitem_canonical_ARTIKUL:
  "getitem (canonical_table raw_df) ARTIKUL = getitem raw_df ARTIKUL"
  by (simp add: canonical_table_def getitem_def canonical_row_ARTIKUL)

lemma getitem_canonical_target:
  "(target, sources) \<in> set MAPPING \<Longrightarrow>
   getitem (canonical_table raw_df) target =
     (case find (\<lambda>s. s \<in> set (columns raw_df)) sources of
        Some m \<Rightarrow> getitem raw_df m
      | None \<Rightarrow> map (\<lambda>_. NaN) (rows raw_df))"
  by (simp add: canonical_table_def getitem_def canonical_row_target comp_def
        split: option.splits)


lemma group_column:
  "map (\<lambda>r. r c) (group_rows key df k)
     = map snd (filter (\<lambda>p. fst p = k) (zip (getitem df key) (getitem df c)))"
proof -
  have "map (\<lambda>r. r c) (filter (\<lambda>r. r key = k) rs)
          = map snd (filter (\<lambda>p. fst p = k) (zip (map (\<lambda>r. r key) rs) (map (\<lambda>r. r c) rs)))"
    for rs :: "row list"
    by (induction rs) simp_all
  then show ?thesis
    by (simp add: group_rows_def getitem_def)
qed

lemma getitem_groupby_agg:
  "c \<noteq> key \<Longrightarrow>
   getitem (groupby_agg key df) c =
     map (\<lambda>k. first_valid (map snd (filter (\<lambda>p. fst p = k) (zip (getitem df key) (getitem df c)))))
       (group_keys key df)"
  by (simp add: groupby_agg_def getitem_def comp_def group_column [unfolded getitem_def])

lemma canonical_columns_distinct: "distinct canonical_columns"
  using MAPPING_distinct ARTIKUL_not_target FILTERS_not_target FILTERS_not_ARTIKUL
  by (auto simp: canonical_columns_def)

lemma columns_groupby_canonical:
  "columns (groupby_agg ARTIKUL (canonical_table raw_df)) = canonical_columns"
proof -
  have "removeAll ARTIKUL (map fst MAPPING @ [FILTERS_COLUMN]) = map fst MAPPING @ [FILTERS_COLUMN]"
    using ARTIKUL_not_target FILTERS_not_ARTIKUL by (simp add: removeAll_id)
  then show ?thesis
    by (simp add: columns_groupby_agg canonical_table_def canonical_columns_def)
qed

lemma merge_catalog_eq:
  "load_data files = Some raw_df \<Longrightarrow> ARTIKUL \<in> set (columns raw_df) \<Longrightarrow>
   merge_catalog files = Inr (groupby_agg ARTIKUL (canonical_table raw_df))"
  by (simp add: merge_catalog_def build_temp_eq)

lemma merge_catalog_no_artikul:
  "load_data files = Some raw_df \<Longrightarrow> ARTIKUL \<notin> set (columns raw_df) \<Longrightarrow>
   merge_catalog files = Inl ArtikulNotFound"
  by (simp add: merge_catalog_def build_temp_def)

lemma merge_catalog_InrD:
  assumes "merge_catalog files = Inr final_df"
  obtains raw_df where "load_data files = Some raw_df" "ARTIKUL \<in> set (columns raw_df)"
    "final_df = groupby_agg ARTIKUL (canonical_table raw_df)"
proof (cases "load_data files")
  case None
  then show ?thesis
    using assms by (simp add: merge_catalog_def)
next
  case (Some raw_df)
  show ?thesis
  proof (cases "ARTIKUL \<in> set (columns raw_df)")
    case True
    then show ?thesis
      using assms Some that by (simp add: merge_catalog_eq)
  next
    case False
    then show ?thesis
      using assms Some by (simp add: merge_catalog_no_artikul)
  qed
qed

lemma process_catalog_sort:
  assumes "merge_catalog files = Inr final_df"
  shows "process_catalog argsort files = sort_values argsort MANUFACTURER final_df"
proof -
  from assms obtain raw_df where "final_df = groupby_agg ARTIKUL (canonical_table raw_df)"
    by (rule merge_catalog_InrD)
  then have "MANUFACTURER \<in> set (columns final_df)"
    using MANUFACTURER_target by (simp add: columns_groupby_canonical canonical_columns_def)
  then show ?thesis
    using assms by (simp add: process_catalog_def)
qed

lemma process_catalog_InrD:
  assumes "process_catalog argsort files = Inr out"
  obtains final_df where "merge_catalog files = Inr final_df"
    "sort_values argsort MANUFACTURER final_df = Inr out"
proof (cases "merge_catalog files")
  case (Inl e)
  then show ?thesis
    using assms by (simp add: process_catalog_def)
next
  case (Inr final_df)
  then show ?thesis
    using assms that by (simp add: process_catalog_sort)
qed

lemma process_catalog_Inr:
  assumes "merge_catalog files = Inr final_df"
    and "\<not> mixed (filter notna (getitem final_df MANUFACTURER))"
  shows "\<exists>out. process_catalog argsort files = Inr out"
  using assms by (simp add: process_catalog_sort sort_values_eq)

section \<open>Strings\<close>


lemma replace_prefix:
  assumes "old \<noteq> []"
  shows "replace (old @ s) old new = new @ replace s old new"
  using assms by (subst replace.simps) simp

lemma replace_absent:
  assumes "old \<noteq> []" and "\<not> contains s old"
  shows "replace s old new = s"
  using assms
proof (induction s)
  case Nil
  then show ?case
    by (subst replace.simps) simp
next
  case (Cons c cs)
  then have "\<not> prefix old (c # cs)" and "\<not> contains cs old"
    by auto
  then show ?case
    using Cons by (subst replace.simps) simp
qed

section \<open>More on merging and sorting\<close>

lemma first_valid_all_NaN: "(\<And>v. v \<in> set x \<Longrightarrow> v = NaN) \<Longrightarrow> first_valid x = NaN"
proof -
  assume "\<And>v. v \<in> set x \<Longrightarrow> v = NaN"
  then have "filter notna x = []"
    by (auto simp: filter_empty_conv notna_iff)
  then show ?thesis
    by (simp add: first_valid_def)
qed

lemma groupby_agg_drop_missing:
  "groupby_agg key (df\<lparr>rows := filter (\<lambda>t. t key \<noteq> NaN) (rows df)\<rparr>) = groupby_agg key df"
proof -
  let ?df' = "df\<lparr>rows := filter (\<lambda>t. t key \<noteq> NaN) (rows df)\<rparr>"
  have keys: "group_keys key ?df' = group_keys key df"
    by (simp add: group_keys_def getitem_def filter_map comp_def notna_iff)
  have grp: "group_rows key ?df' k = group_rows key df k" if "k \<in> set (group_keys key df)" for k
  proof -
    have "k \<noteq> NaN"
      using that by (simp add: set_group_keys)
    then show ?thesis
      by (auto simp: group_rows_def intro: filter_cong)
  qed
  have "map (\<lambda>k c. if c = key then k
                      else first_valid (map (\<lambda>r. r c) (group_rows key ?df' k)))
          (group_keys key df)
        = map (\<lambda>k c. if c = key then k
                      else first_valid (map (\<lambda>r. r c) (group_rows key df k)))
          (group_keys key df)"
  proof (rule map_cong [OF refl])
    fix k
    assume "k \<in> set (group_keys key df)"
    then have "group_rows key ?df' k = group_rows key df k"
      by (rule grp)
    then show "(\<lambda>c. if c = key then k
                   else first_valid (map (\<lambda>r. r c) (group_rows key ?df' k)))
             = (\<lambda>c. if c = key then k
                   else first_valid (map (\<lambda>r. r c) (group_rows key df k)))"
      by (simp only:)
  qed
  then have "rows (groupby_agg key ?df') = rows (groupby_agg key df)"
    unfolding groupby_agg_def by (simp add: keys)
  then show ?thesis
    by (simp add: groupby_agg_def)
qed

lemma canonical_table_drop_missing:
  "canonical_table (raw_df\<lparr>rows := filter (\<lambda>r. r ARTIKUL \<noteq> NaN) (rows raw_df)\<rparr>)
     = (canonical_table raw_df)\<lparr>rows := filter (\<lambda>t. t ARTIKUL \<noteq> NaN) (rows (canonical_table raw_df))\<rparr>"
  by (simp add: canonical_table_def filter_map comp_def canonical_row_ARTIKUL)

lemma getitem_sort_values:
  assumes ok: "sorter_ok argsort" and res: "sort_values argsort col df = Inr out"
  shows "getitem out c =
     map ((!) (getitem df c))
       (map ((!) (filter (\<lambda>i. notna (getitem df col ! i)) [0..<length (getitem df col)]))
          (argsort (filter notna (getitem df col)))
        @ filter (\<lambda>i. \<not> notna (getitem df col ! i)) [0..<length (getitem df col)])"
proof -
  define n where "n = length (rows df)"
  define indexer where "indexer =
     map ((!) (filter (\<lambda>i. notna (getitem df col ! i)) [0..<n]))
          (argsort (filter notna (getitem df col)))
        @ filter (\<lambda>i. \<not> notna (getitem df col ! i)) [0..<n]"
  have len: "length (getitem df col) = n"
    by (simp add: getitem_def n_def)
  have out: "rows out = map ((!) (rows df)) indexer"
    using res by (auto simp: sort_values_eq indexer_def n_def split: if_splits)
  have "mset (map ((!) (rows df)) indexer) = mset (map ((!) (rows df)) [0..<n])"
    using sort_values_sorted(1) [OF ok res] by (simp add: out n_def map_nth)
  then have "length indexer = n"
    by (metis length_map length_upt mset_eq_length minus_nat.diff_0)
  have "mset (rows out) = mset (rows df)"
    by (rule sort_values_sorted(1) [OF ok res])
  have in_range: "i < n" if "i \<in> set indexer" for i
  proof -
    have "\<not> mixed (filter notna (getitem df col))"
      using res by (auto simp: sort_values_eq split: if_splits)
    then have p: "mset (argsort (filter notna (getitem df col)))
                   = mset [0..<length (filter notna (getitem df col))]"
      using ok by (simp add: sorter_ok_def)
    have nn: "map ((!) (getitem df col)) (filter (\<lambda>i. notna (getitem df col ! i)) [0..<n])
                = filter notna (getitem df col)"
      unfolding len [symmetric] by (rule map_nth_filter)
    then have len_nn: "length (filter (\<lambda>i. notna (getitem df col ! i)) [0..<n])
                = length (filter notna (getitem df col))"
      by (metis length_map)
    from that consider j where "j \<in> set (argsort (filter notna (getitem df col)))"
        "i = filter (\<lambda>i. notna (getitem df col ! i)) [0..<n] ! j"
      | "i \<in> set (filter (\<lambda>i. \<not> notna (getitem df col ! i)) [0..<n])"
      by (auto simp: indexer_def)
    then show ?thesis
    proof cases
      case 1
      then have "j < length (filter (\<lambda>i. notna (getitem df col ! i)) [0..<n])"
        using p len_nn by (metis atLeastLessThan_iff mset_eq_setD set_upt)
      then have "filter (\<lambda>i. notna (getitem df col ! i)) [0..<n] ! j
          \<in> set (filter (\<lambda>i. notna (getitem df col ! i)) [0..<n])"
        by (rule nth_mem)
      then have "i \<in> set (filter (\<lambda>i. notna (getitem df col ! i)) [0..<n])"
        using 1(2) by simp
      then show ?thesis
        by simp
    next
      case 2
      then show ?thesis
        by simp
    qed
  qed
  have "getitem out c = map (\<lambda>i. (rows df ! i) c) indexer"
    by (simp add: getitem_def out comp_def)
  also have "\<dots> = map ((!) (getitem df c)) indexer"
    by (rule map_cong [OF refl]) (use in_range in \<open>simp add: getitem_def n_def\<close>)
  finally show ?thesis
    by (simp add: indexer_def len)
qed

section \<open>The filters of a row and the columns of its own table\<close>






section \<open>The example of the two shops, evaluated\<close>

lemmas label_defs = ARTIKUL_def BRAND_def PRICE_def MANUFACTURER_def FILTERS_COLUMN_def

lemma load_two_shops: "load_data two_shops = Some (pd_concat [shop_a, shop_b])"
  by (simp add: load_data_def two_shops_def)

lemma columns_two_shops:
  "columns (pd_concat [shop_a, shop_b]) = [ARTIKUL, BRAND, PRICE, MANUFACTURER]"
  by (simp add: pd_concat_def shop_a_def shop_b_def label_defs)

lemma artikul_two_shops: "ARTIKUL \<in> set (columns (pd_concat [shop_a, shop_b]))"
  by (simp add: columns_two_shops)

lemma getitem_two_shops:
  "getitem (pd_concat [shop_a, shop_b]) ARTIKUL
     = [Str (ascii ''X''), Str (ascii ''Y''), Str (ascii ''X''), NaN, Str (ascii ''Y'')]"
  "getitem (pd_concat [shop_a, shop_b]) BRAND
     = [Str (ascii ''Acme''), Str (ascii ''Bolt''), NaN, NaN, NaN]"
  "getitem (pd_concat [shop_a, shop_b]) PRICE = [NaN, Num 100, Num 100, Num 5, Num 200]"
  by (simp_all add: getitem_def pd_concat_def reindex_def shop_a_def shop_b_def row_of_def
        label_defs)

lemma manufacturer_entry:
  "(MANUFACTURER, [BRAND, MANUFACTURER,
      [1047, 1072, 1074, 1086, 1076, 1089, 1082, 1072, 1103, 32, 1084, 1072, 1088, 1082, 1080,
       1088, 1086, 1074, 1082, 1072]]) \<in> set MAPPING"
  by (simp add: MAPPING_def label_defs)

lemma price_entry:
  "(PRICE, [PRICE,
      [1056, 1086, 1079, 1085, 1080, 1095, 1085, 1072, 1103, 32, 1094, 1077, 1085, 1072],
      [1062, 1077, 1085, 1072, 32, 1089, 1086, 32, 1089, 1082, 1080, 1076, 1082, 1086, 1081],
      [1057, 1090, 1086, 1080, 1084, 1086, 1089, 1090, 1100],
      [80, 114, 105, 99, 101],
      [1056, 1056, 1062]]) \<in> set MAPPING"
  by (simp add: MAPPING_def label_defs)

lemma canonical_two_shops:
  "getitem (canonical_table (pd_concat [shop_a, shop_b])) ARTIKUL
     = [Str (ascii ''X''), Str (ascii ''Y''), Str (ascii ''X''), NaN, Str (ascii ''Y'')]"
  "getitem (canonical_table (pd_concat [shop_a, shop_b])) MANUFACTURER
     = [Str (ascii ''Acme''), Str (ascii ''Bolt''), NaN, NaN, NaN]"
  "getitem (canonical_table (pd_concat [shop_a, shop_b])) PRICE
     = [NaN, Num 100, Num 100, Num 5, Num 200]"
  by (simp_all add: getitem_canonical_ARTIKUL getitem_canonical_target [OF manufacturer_entry]
        getitem_canonical_target [OF price_entry] columns_two_shops getitem_two_shops)

lemma keys_two_shops:
  "group_keys ARTIKUL (canonical_table (pd_concat [shop_a, shop_b]))
     = [Str (ascii ''X''), Str (ascii ''Y'')]"
  by (simp add: group_keys_def canonical_two_shops ascii_def)

lemma merge_two_shops:
  "merge_catalog two_shops
     = Inr (groupby_agg ARTIKUL (canonical_table (pd_concat [shop_a, shop_b])))"
  using load_two_shops artikul_two_shops by (rule merge_catalog_eq)

lemma merged_two_shops:
  "getitem (groupby_agg ARTIKUL (canonical_table (pd_concat [shop_a, shop_b]))) ARTIKUL
     = [Str (ascii ''X''), Str (ascii ''Y'')]"
  "getitem (groupby_agg ARTIKUL (canonical_table (pd_concat [shop_a, shop_b]))) MANUFACTURER
     = [Str (ascii ''Acme''), Str (ascii ''Bolt'')]"
  "getitem (groupby_agg ARTIKUL (canonical_table (pd_concat [shop_a, shop_b]))) PRICE
     = [Num 100, Num 100]"
proof -
  have ne: "MANUFACTURER \<noteq> ARTIKUL" "PRICE \<noteq> ARTIKUL"
    by (simp_all add: label_defs)
  show "getitem (groupby_agg ARTIKUL (canonical_table (pd_concat [shop_a, shop_b]))) ARTIKUL
     = [Str (ascii ''X''), Str (ascii ''Y'')]"
    by (simp add: getitem_groupby_agg_key keys_two_shops)
  show "getitem (groupby_agg ARTIKUL (canonical_table (pd_concat [shop_a, shop_b]))) MANUFACTURER
     = [Str (ascii ''Acme''), Str (ascii ''Bolt'')]"
    by (simp add: getitem_groupby_agg [OF ne(1)] keys_two_shops canonical_two_shops
          first_valid_def ascii_def)
  show "getitem (groupby_agg ARTIKUL (canonical_table (pd_concat [shop_a, shop_b]))) PRICE
     = [Num 100, Num 100]"
    by (simp add: getitem_groupby_agg [OF ne(2)] keys_two_shops canonical_two_shops
          first_valid_def ascii_def)
qed

lemma process_two_shops:
  obtains out where "process_catalog stable_argsort two_shops = Inr out"
    "sort_values stable_argsort MANUFACTURER
       (groupby_agg ARTIKUL (canonical_table (pd_concat [shop_a, shop_b]))) = Inr out"
proof -
  have "\<not> mixed (filter notna
      (getitem (groupby_agg ARTIKUL (canonical_table (pd_concat [shop_a, shop_b]))) MANUFACTURER))"
    by (simp add: merged_two_shops mixed_def)
  then obtain out where out: "process_catalog stable_argsort two_shops = Inr out"
    using process_catalog_Inr [OF merge_two_shops] by blast
  then show ?thesis
    using that by (simp add: process_catalog_sort [OF merge_two_shops])
qed

lemma sorted_two_shops:
  assumes "sort_values stable_argsort MANUFACTURER
       (groupby_agg ARTIKUL (canonical_table (pd_concat [shop_a, shop_b]))) = Inr out"
  shows "getitem out ARTIKUL = [Str (ascii ''X''), Str (ascii ''Y'')]"
    and "getitem out MANUFACTURER = [Str (ascii ''Acme''), Str (ascii ''Bolt'')]"
    and "getitem out PRICE = [Num 100, Num 100]"
  by (simp_all add: getitem_sort_values [OF sorter_ok_stable assms] merged_two_shops
        stable_argsort_def ascii_def)

section \<open>The example filter columns, evaluated\<close>

lemma LABEL_PREFIX_nonempty: "LABEL_PREFIX \<noteq> []"
  by (simp add: LABEL_PREFIX_def)

lemma replace_COAL_FLAG: "replace COAL_FLAG LABEL_PREFIX [] = COAL"
proof -
  have "\<not> contains COAL LABEL_PREFIX"
    by (simp add: COAL_def LABEL_PREFIX_def)
  then show ?thesis
    by (simp add: COAL_FLAG_def replace_prefix [OF LABEL_PREFIX_nonempty]
          replace_absent [OF LABEL_PREFIX_nonempty])
qed

lemma marker_examples:
  "contains (lower ARTIKUL) MARKER = False" "contains (lower FILTRA) MARKER = False"
  "contains (lower COAL_FLAG) MARKER = True" "contains (lower SHOUTED_FLAG) MARKER = True"
  by (simp_all add: lower_def lower_cp_def MARKER_def ARTIKUL_def FILTRA_def COAL_FLAG_def
        COAL_def LABEL_PREFIX_def SHOUTED_FLAG_def)

lemma flags_not_direct: "COAL_FLAG \<notin> set FILTER_KEYS" "SHOUTED_FLAG \<notin> set FILTER_KEYS"
  by (simp_all add: FILTER_KEYS_def COAL_FLAG_def COAL_def LABEL_PREFIX_def SHOUTED_FLAG_def)

lemma boolean_cols_examples:
  "boolean_cols [ARTIKUL, FILTRA] = []"
  "boolean_cols filter_columns = [COAL_FLAG, SHOUTED_FLAG]"
  by (simp_all add: boolean_cols_def filter_columns_def marker_examples flags_not_direct)

lemma filter_columns_distinct:
  "FILTRA \<noteq> ARTIKUL" "COAL_FLAG \<noteq> ARTIKUL" "COAL_FLAG \<noteq> FILTRA" "SHOUTED_FLAG \<noteq> ARTIKUL"
  "SHOUTED_FLAG \<noteq> FILTRA" "SHOUTED_FLAG \<noteq> COAL_FLAG"
  by (simp_all add: FILTRA_def ARTIKUL_def COAL_FLAG_def COAL_def LABEL_PREFIX_def
        SHOUTED_FLAG_def)

section \<open>The sorting examples, evaluated\<close>








section \<open>The example of the two orders of flag columns, evaluated\<close>














section \<open>The claims\<close>

subsection \<open>C1: the merge keeps the first value that is not missing\<close>

text \<open>
  Claim C1.  The merge of the duplicates reduces every field on its own: in the merged
  row of an identifier, every field holds the first non-missing cell that the rows of
  that identifier have in this field, in the row order of the concatenated table, and is
  missing when all of them are missing.  The merge always yields a frame: no check
  compares the rows of a group, and no error is raised when they disagree.  Every
  identifier that occurs has its merged row.
\<close>

theorem merge_first_non_missing:
  assumes "load_data files = Some raw_df" and "build_temp raw_df = Inr temp_df"
  shows "\<exists>final_df. merge_catalog files = Inr final_df
       \<and> (\<forall>r\<in>set (rows final_df). r ARTIKUL \<noteq> NaN
             \<and> (\<forall>c. spec_first_non_missing
                   (map (\<lambda>t. t c) (filter (\<lambda>t. t ARTIKUL = r ARTIKUL) (rows temp_df))) (r c)))
       \<and> (\<forall>t\<in>set (rows temp_df). t ARTIKUL \<noteq> NaN
             \<longrightarrow> (\<exists>r\<in>set (rows final_df). r ARTIKUL = t ARTIKUL))"
proof -
  let ?final = "groupby_agg ARTIKUL temp_df"
  have m: "merge_catalog files = Inr ?final"
    using assms by (simp add: merge_catalog_def)
  have 1: "r ARTIKUL \<noteq> NaN
      \<and> (\<forall>c. spec_first_non_missing
            (map (\<lambda>t. t c) (filter (\<lambda>t. t ARTIKUL = r ARTIKUL) (rows temp_df))) (r c))"
    if r: "r \<in> set (rows ?final)" for r
  proof -
    have "r ARTIKUL \<in> set (group_keys ARTIKUL temp_df)"
      using r by (rule rows_groupby_agg(1))
    then have "r ARTIKUL \<noteq> NaN"
      by (simp add: set_group_keys)
    moreover have "spec_first_non_missing
        (map (\<lambda>t. t c) (filter (\<lambda>t. t ARTIKUL = r ARTIKUL) (rows temp_df))) (r c)" for c
    proof -
      have "r c = first_valid (map (\<lambda>t. t c) (group_rows ARTIKUL temp_df (r ARTIKUL)))"
        using r by (rule rows_groupby_agg(2))
      then have "r c = first_valid
          (map (\<lambda>t. t c) (filter (\<lambda>t. t ARTIKUL = r ARTIKUL) (rows temp_df)))"
        by (simp add: group_rows_def)
      then show ?thesis
        using first_valid_spec by metis
    qed
    ultimately show ?thesis
      by blast
  qed
  have 2: "\<exists>r\<in>set (rows ?final). r ARTIKUL = t ARTIKUL"
    if t: "t \<in> set (rows temp_df)" "t ARTIKUL \<noteq> NaN" for t
  proof -
    have "t ARTIKUL \<in> set (group_keys ARTIKUL temp_df)"
      using t by (auto simp: set_group_keys getitem_def)
    then have "t ARTIKUL \<in> set (getitem ?final ARTIKUL)"
      by (simp add: getitem_groupby_agg_key)
    then show ?thesis
      by (auto simp: getitem_def)
  qed
  show ?thesis
    using m 1 2 by blast
qed

theorem merge_first_non_missing_witness:
  "load_data two_shops = Some (pd_concat [shop_a, shop_b])
   \<and> build_temp (pd_concat [shop_a, shop_b]) = Inr (canonical_table (pd_concat [shop_a, shop_b]))
   \<and> getitem (canonical_table (pd_concat [shop_a, shop_b])) ARTIKUL
       = [Str (ascii ''X''), Str (ascii ''Y''), Str (ascii ''X''), NaN, Str (ascii ''Y'')]
   \<and> getitem (canonical_table (pd_concat [shop_a, shop_b])) PRICE
       = [NaN, Num 100, Num 100, Num 5, Num 200]
   \<and> (\<exists>final_df. merge_catalog two_shops = Inr final_df
          \<and> getitem final_df ARTIKUL = [Str (ascii ''X''), Str (ascii ''Y'')]
          \<and> getitem final_df PRICE = [Num 100, Num 100]
          \<and> (\<forall>r\<in>set (rows final_df).
                spec_first_non_missing
                  (map (\<lambda>t. t PRICE)
                     (filter (\<lambda>t. t ARTIKUL = r ARTIKUL)
                        (rows (canonical_table (pd_concat [shop_a, shop_b]))))) (r PRICE)))"
proof -
  have b: "build_temp (pd_concat [shop_a, shop_b])
             = Inr (canonical_table (pd_concat [shop_a, shop_b]))"
    using artikul_two_shops by (rule build_temp_eq)
  obtain final_df where m: "merge_catalog two_shops = Inr final_df"
    and p: "\<forall>r\<in>set (rows final_df). r ARTIKUL \<noteq> NaN
             \<and> (\<forall>c. spec_first_non_missing
                   (map (\<lambda>t. t c)
                      (filter (\<lambda>t. t ARTIKUL = r ARTIKUL)
                         (rows (canonical_table (pd_concat [shop_a, shop_b]))))) (r c))"
    using merge_first_non_missing [OF load_two_shops b] by blast
  have f: "final_df = groupby_agg ARTIKUL (canonical_table (pd_concat [shop_a, shop_b]))"
    using m merge_two_shops by simp
  have "getitem final_df ARTIKUL = [Str (ascii ''X''), Str (ascii ''Y'')]"
    and "getitem final_df PRICE = [Num 100, Num 100]"
    by (simp_all add: f merged_two_shops)
  then show ?thesis
    using load_two_shops b canonical_two_shops(1,3) m p by blast
qed

subsection \<open>C2: the first alias that is a column supplies the field\<close>



subsection \<open>C3: the identifier column is required\<close>

text \<open>
  Claim C3.  When the column universe of the loaded tables does not contain the identifier
  column \<open>Artikul\<close>, the pipeline stops at its early return for the missing identifier (the
  failure the specification calls SchemaError): nothing is merged, and no frame, not even
  a partial one, is handed to \<open>to_excel\<close>.
\<close>

theorem artikul_required:
  assumes "load_data files = Some raw_df" and "ARTIKUL \<notin> set (columns raw_df)"
  shows "process_catalog argsort files = Inl ArtikulNotFound"
  using assms by (simp add: process_catalog_def merge_catalog_no_artikul)

theorem artikul_required_witness:
  "load_data [Some no_artikul] = Some (pd_concat [no_artikul])
   \<and> ARTIKUL \<notin> set (columns (pd_concat [no_artikul]))
   \<and> process_catalog stable_argsort [Some no_artikul] = Inl ArtikulNotFound"
proof -
  have l: "load_data [Some no_artikul] = Some (pd_concat [no_artikul])"
    by (simp add: load_data_def)
  have a: "ARTIKUL \<notin> set (columns (pd_concat [no_artikul]))"
    by (simp add: pd_concat_def no_artikul_def label_defs)
  show ?thesis
    using l a artikul_required [OF l a, of stable_argsort] by simp
qed

subsection \<open>C4: the columns the filter extractor is given\<close>




subsection \<open>C5: the order of the catalog\<close>




subsection \<open>C6: one row for every identifier\<close>

text \<open>
  Claim C6.  When the pipeline writes a catalog, the catalog has as many rows as there are
  distinct identifier values among the loaded rows (a missing cell is no value); the
  identifiers of its rows are these values, each once.
\<close>

theorem one_row_per_identifier:
  assumes "sorter_ok argsort" and "load_data files = Some raw_df"
    and "process_catalog argsort files = Inr out"
  shows "length (rows out) = card {v \<in> set (getitem raw_df ARTIKUL). v \<noteq> NaN}
       \<and> set (getitem out ARTIKUL) = {v \<in> set (getitem raw_df ARTIKUL). v \<noteq> NaN}
       \<and> distinct (getitem out ARTIKUL)"
proof -
  from assms(3) obtain final_df where m: "merge_catalog files = Inr final_df"
    and s: "sort_values argsort MANUFACTURER final_df = Inr out"
    by (rule process_catalog_InrD)
  from m assms(2) have f: "final_df = groupby_agg ARTIKUL (canonical_table raw_df)"
    by (auto elim!: merge_catalog_InrD)
  have ms: "mset (rows out) = mset (rows final_df)"
    by (rule sort_values_sorted(1) [OF assms(1) s])
  then have "image_mset (\<lambda>r. r ARTIKUL) (mset (rows out))
      = image_mset (\<lambda>r. r ARTIKUL) (mset (rows final_df))"
    by simp
  then have "mset (getitem out ARTIKUL) = mset (getitem final_df ARTIKUL)"
    by (simp add: getitem_def)
  then have keys: "mset (getitem out ARTIKUL) = mset (group_keys ARTIKUL (canonical_table raw_df))"
    by (simp add: f getitem_groupby_agg_key)
  have raw: "getitem (canonical_table raw_df) ARTIKUL = getitem raw_df ARTIKUL"
    by (rule getitem_canonical_ARTIKUL)
  have "length (rows out) = length (rows final_df)"
    using ms by (rule mset_eq_length)
  then have "length (rows out) = card {v \<in> set (getitem raw_df ARTIKUL). v \<noteq> NaN}"
    by (simp add: f length_rows_groupby_agg raw)
  moreover have "set (getitem out ARTIKUL) = {v \<in> set (getitem raw_df ARTIKUL). v \<noteq> NaN}"
    using mset_eq_setD [OF keys] by (simp add: set_group_keys raw)
  moreover have "distinct (getitem out ARTIKUL)"
    using keys distinct_group_keys by (metis mset_eq_imp_distinct_iff)
  ultimately show ?thesis
    by simp
qed

theorem one_row_per_identifier_witness:
  "sorter_ok stable_argsort
   \<and> load_data two_shops = Some (pd_concat [shop_a, shop_b])
   \<and> getitem (pd_concat [shop_a, shop_b]) ARTIKUL
       = [Str (ascii ''X''), Str (ascii ''Y''), Str (ascii ''X''), NaN, Str (ascii ''Y'')]
   \<and> (\<exists>out. process_catalog stable_argsort two_shops = Inr out
          \<and> length (rows out) = 2
          \<and> set (getitem out ARTIKUL) = {Str (ascii ''X''), Str (ascii ''Y'')})"
proof -
  obtain out where p: "process_catalog stable_argsort two_shops = Inr out"
    by (rule process_two_shops)
  have "{v \<in> set (getitem (pd_concat [shop_a, shop_b]) ARTIKUL). v \<noteq> NaN}
          = {Str (ascii ''X''), Str (ascii ''Y'')}"
    by (auto simp: getitem_two_shops)
  moreover have "card {Str (ascii ''X''), Str (ascii ''Y'')} = 2"
    by (simp add: ascii_def)
  ultimately have "length (rows out) = 2
      \<and> set (getitem out ARTIKUL) = {Str (ascii ''X''), Str (ascii ''Y'')}"
    using one_row_per_identifier [OF sorter_ok_stable load_two_shops p] by simp
  then show ?thesis
    using p sorter_ok_stable load_two_shops getitem_two_shops(1) by blast
qed

subsection \<open>C7: the filters read from the flag columns\<close>



subsection \<open>C8: the filters read from the direct columns, and the result\<close>

text \<open>
  Claim C8.  Every direct filter column (a label of \<open>FILTER_KEYS\<close>) that the row has, whose
  cell is not missing and not blank once trimmed, contributes the text of its cell, in the
  order of \<open>FILTER_KEYS\<close> and before the contributions of the flag columns.  The result is
  the contributions joined with a comma and a space, and missing when there is none.
\<close>

theorem free_text_filters:
  assumes "set source_columns \<subseteq> set index"
  shows "extract_filters index row source_columns =
     Inr (let direct = map (\<lambda>k. str (row k))
                         (filter (\<lambda>k. k \<in> set index \<and> row k \<noteq> NaN \<and> strip (str (row k)) \<noteq> [])
                            FILTER_KEYS);
              flags = map (\<lambda>c. replace c LABEL_PREFIX [])
                        (filter (\<lambda>c. lower (strip (str (row c))) \<in> YES_VALUES)
                           (boolean_cols source_columns))
          in if direct @ flags = [] then NaN else Str (join [44, 32] (direct @ flags)))"
  using extract_filters_eq [OF assms, of row] by (simp add: Let_def notna_iff)

theorem free_text_filters_witness:
  "set [ARTIKUL, FILTRA] \<subseteq> set [ARTIKUL, FILTRA]
   \<and> extract_filters [ARTIKUL, FILTRA] (row_of [(ARTIKUL, Num 1), (FILTRA, Str (ascii ''HEPA''))])
        [ARTIKUL, FILTRA] = Inr (Str (ascii ''HEPA''))
   \<and> extract_filters [ARTIKUL, FILTRA] (row_of [(ARTIKUL, Num 1), (FILTRA, Str (ascii ''  ''))])
        [ARTIKUL, FILTRA] = Inr NaN
   \<and> extract_filters [ARTIKUL, FILTRA] (row_of [(ARTIKUL, Num 1), (FILTRA, NaN)])
        [ARTIKUL, FILTRA] = Inr NaN
   \<and> set filter_columns \<subseteq> set filter_columns
   \<and> extract_filters filter_columns
        (row_of [(ARTIKUL, Num 1), (FILTRA, Str (ascii ''HEPA'')), (COAL_FLAG, Str DA)])
        filter_columns = Inr (Str (ascii ''HEPA, '' @ COAL))"
proof -
  have sub: "set [ARTIKUL, FILTRA] \<subseteq> set [ARTIKUL, FILTRA]"
    "set filter_columns \<subseteq> set filter_columns"
    by simp_all
  note keys = flags_not_direct
  note b1 = boolean_cols_examples(1)
  note b2 = boolean_cols_examples(2)
  have direct: "filter P FILTER_KEYS = (if P FILTRA then [FILTRA] else [])"
    if other: "\<And>k. k \<notin> {ARTIKUL, FILTRA, COAL_FLAG, SHOUTED_FLAG} \<Longrightarrow> \<not> P k" for P
  proof -
    have "\<not> P k" if "k \<in> set FILTER_KEYS" "k \<noteq> FILTRA" for k
    proof (rule other)
      show "k \<notin> {ARTIKUL, FILTRA, COAL_FLAG, SHOUTED_FLAG}"
        using that keys by (auto simp: FILTER_KEYS_def ARTIKUL_def)
    qed
    then have "filter P FILTER_KEYS = filter (\<lambda>k. k = FILTRA \<and> P k) FILTER_KEYS"
      by (auto intro: filter_cong)
    then show ?thesis
      by (simp add: FILTER_KEYS_def FILTRA_def)
  qed
  note ne = filter_columns_distinct
  have strs: "strip (ascii ''HEPA'') \<noteq> []" "strip (ascii ''  '') = []"
    "lower (strip DA) \<in> YES_VALUES" "lower (strip [110, 97, 110]) \<notin> YES_VALUES"
    by (simp_all add: strip_def isspace_def ascii_def lower_def lower_cp_def DA_def
          YES_VALUES_def)
  note coal = replace_COAL_FLAG
  have comma: "ascii ''HEPA, '' = ascii ''HEPA'' @ [44, 32]"
    by (simp add: ascii_def)
  have "extract_filters [ARTIKUL, FILTRA] (row_of [(ARTIKUL, Num 1), (FILTRA, Str (ascii ''HEPA''))])
        [ARTIKUL, FILTRA] = Inr (Str (ascii ''HEPA''))"
    unfolding free_text_filters [OF sub(1)] b1
    using ne by (subst direct) (auto simp: row_of_def strs)
  moreover have "extract_filters [ARTIKUL, FILTRA] (row_of [(ARTIKUL, Num 1), (FILTRA, Str (ascii ''  ''))])
        [ARTIKUL, FILTRA] = Inr NaN"
    unfolding free_text_filters [OF sub(1)] b1
    using ne by (subst direct) (auto simp: row_of_def strs)
  moreover have "extract_filters [ARTIKUL, FILTRA] (row_of [(ARTIKUL, Num 1), (FILTRA, NaN)])
        [ARTIKUL, FILTRA] = Inr NaN"
    unfolding free_text_filters [OF sub(1)] b1
    using ne by (subst direct) (auto simp: row_of_def strs)
  moreover have "extract_filters filter_columns
        (row_of [(ARTIKUL, Num 1), (FILTRA, Str (ascii ''HEPA'')), (COAL_FLAG, Str DA)])
        filter_columns = Inr (Str (ascii ''HEPA, '' @ COAL))"
    unfolding free_text_filters [OF sub(2)] b2
    using ne by (subst direct) (auto simp: row_of_def strs coal comma filter_columns_def)
  ultimately show ?thesis
    using sub by blast
qed

subsection \<open>C9: the canonical schema\<close>

text \<open>
  Claim C9.  Whatever columns the input had, the frame the pipeline writes has exactly the
  canonical columns, in this order: the identifier \<open>Artikul\<close>, the twelve targets of
  \<open>MAPPING\<close> in the order of the dictionary, and the filters column; they are distinct
  and fourteen in number, and no row holds a cell outside of them.
\<close>

theorem canonical_schema:
  assumes "sorter_ok argsort" and "process_catalog argsort files = Inr out"
  shows "columns out = ARTIKUL # map fst MAPPING @ [FILTERS_COLUMN]
       \<and> length (columns out) = 14 \<and> distinct (columns out)
       \<and> (\<forall>r\<in>set (rows out). \<forall>c. c \<notin> set (columns out) \<longrightarrow> r c = NaN)"
proof -
  from assms(2) obtain final_df where m: "merge_catalog files = Inr final_df"
    and s: "sort_values argsort MANUFACTURER final_df = Inr out"
    by (rule process_catalog_InrD)
  from m obtain raw_df where f: "final_df = groupby_agg ARTIKUL (canonical_table raw_df)"
    by (rule merge_catalog_InrD)
  have cols: "columns out = canonical_columns"
    using sort_values_columns [OF s] by (simp add: f columns_groupby_canonical)
  have len: "length canonical_columns = 14"
    by (simp add: canonical_columns_def MAPPING_def)
  have "r c = NaN" if r: "r \<in> set (rows out)" and c: "c \<notin> set canonical_columns" for r c
  proof -
    have "set (rows out) = set (rows final_df)"
      using sort_values_sorted(1) [OF assms(1) s] by (rule mset_eq_setD)
    then have rf: "r \<in> set (rows (groupby_agg ARTIKUL (canonical_table raw_df)))"
      using r f by simp
    have "v = NaN"
      if "v \<in> set (map (\<lambda>t. t c) (group_rows ARTIKUL (canonical_table raw_df) (r ARTIKUL)))" for v
      using that c by (auto simp: group_rows_def canonical_table_def canonical_row_other)
    then show ?thesis
      unfolding rows_groupby_agg(2) [OF rf, of c] by (rule first_valid_all_NaN)
  qed
  then show ?thesis
    using cols len canonical_columns_distinct by (simp add: canonical_columns_def)
qed

theorem canonical_schema_witness:
  "sorter_ok stable_argsort
   \<and> (\<exists>out. process_catalog stable_argsort two_shops = Inr out
          \<and> columns out = ARTIKUL # map fst MAPPING @ [FILTERS_COLUMN]
          \<and> length (columns out) = 14
          \<and> getitem out ARTIKUL = [Str (ascii ''X''), Str (ascii ''Y'')])"
proof -
  obtain out where p: "process_catalog stable_argsort two_shops = Inr out"
    and s: "sort_values stable_argsort MANUFACTURER
       (groupby_agg ARTIKUL (canonical_table (pd_concat [shop_a, shop_b]))) = Inr out"
    by (rule process_two_shops)
  show ?thesis
    using canonical_schema [OF sorter_ok_stable p] p sorted_two_shops(1) [OF s] sorter_ok_stable
    by blast
qed

subsection \<open>C10: rows without an identifier are left out\<close>

text \<open>
  Claim C10.  A row whose identifier is missing is dropped by the grouping, without an
  error: the merged frame is the one the same table gives once these rows are removed, so
  there is no group for the missing identifier, and every row of the catalog has an
  identifier.
\<close>

theorem missing_identifier_dropped:
  assumes "sorter_ok argsort" and "load_data files = Some raw_df"
    and "process_catalog argsort files = Inr out"
  shows "(\<forall>r\<in>set (rows out). r ARTIKUL \<noteq> NaN)
       \<and> merge_catalog files =
           (case build_temp (raw_df\<lparr>rows := filter (\<lambda>r. r ARTIKUL \<noteq> NaN) (rows raw_df)\<rparr>) of
              Inl e \<Rightarrow> Inl e
            | Inr temp_df \<Rightarrow> Inr (groupby_agg ARTIKUL temp_df))"
proof -
  from assms(3) obtain final_df where m: "merge_catalog files = Inr final_df"
    and s: "sort_values argsort MANUFACTURER final_df = Inr out"
    by (rule process_catalog_InrD)
  from m assms(2) have a: "ARTIKUL \<in> set (columns raw_df)"
    and f: "final_df = groupby_agg ARTIKUL (canonical_table raw_df)"
    by (auto elim!: merge_catalog_InrD)
  have "r ARTIKUL \<noteq> NaN" if "r \<in> set (rows out)" for r
  proof -
    have "set (rows out) = set (rows final_df)"
      using sort_values_sorted(1) [OF assms(1) s] by (rule mset_eq_setD)
    then have "r \<in> set (rows (groupby_agg ARTIKUL (canonical_table raw_df)))"
      using that f by simp
    then have "r ARTIKUL \<in> set (group_keys ARTIKUL (canonical_table raw_df))"
      by (rule rows_groupby_agg(1))
    then show ?thesis
      by (simp add: set_group_keys)
  qed
  moreover have "build_temp (raw_df\<lparr>rows := filter (\<lambda>r. r ARTIKUL \<noteq> NaN) (rows raw_df)\<rparr>)
      = Inr ((canonical_table raw_df)
               \<lparr>rows := filter (\<lambda>t. t ARTIKUL \<noteq> NaN) (rows (canonical_table raw_df))\<rparr>)"
    using a by (simp add: build_temp_eq canonical_table_drop_missing)
  ultimately show ?thesis
    by (simp add: m f groupby_agg_drop_missing)
qed

theorem missing_identifier_dropped_witness:
  "sorter_ok stable_argsort
   \<and> load_data two_shops = Some (pd_concat [shop_a, shop_b])
   \<and> getitem (pd_concat [shop_a, shop_b]) ARTIKUL
       = [Str (ascii ''X''), Str (ascii ''Y''), Str (ascii ''X''), NaN, Str (ascii ''Y'')]
   \<and> (\<exists>out. process_catalog stable_argsort two_shops = Inr out
          \<and> getitem out ARTIKUL = [Str (ascii ''X''), Str (ascii ''Y'')]
          \<and> (\<forall>r\<in>set (rows out). r ARTIKUL \<noteq> NaN))"
proof -
  obtain out where p: "process_catalog stable_argsort two_shops = Inr out"
    and s: "sort_values stable_argsort MANUFACTURER
       (groupby_agg ARTIKUL (canonical_table (pd_concat [shop_a, shop_b]))) = Inr out"
    by (rule process_two_shops)
  have "\<forall>r\<in>set (rows out). r ARTIKUL \<noteq> NaN"
    using missing_identifier_dropped [OF sorter_ok_stable load_two_shops p] by blast
  then show ?thesis
    using p sorted_two_shops(1) [OF s] sorter_ok_stable load_two_shops getitem_two_shops(1)
    by blast
qed

end
